theory Spec2Isabelle
  imports Complex_Main "HOL-Library.AList"
begin

section \<open>Rabbithole: discovery state (src/src/state.js)\<close>

text \<open>
  The class \<open>RabbitholeState\<close> is embedded by explicit state passing.  A slug or a
  musician name is a \<open>string\<close>; \<open>null\<close> is \<open>None\<close>.  The JavaScript \<open>Set\<close> of played
  songs keeps insertion order, so it is a list without repetitions that grows at the end.
  The catalog object returned by \<open>getCatalog()\<close> is a finite map from slugs to entries (its
  own properties only).  The two observers \<open>onStateChange\<close> and \<open>onNextSongQueued\<close> are
  recorded as a log of the calls made to them, and \<open>localStorage\<close> is a map from keys to
  items; \<open>JSON.stringify\<close> and \<open>JSON.parse\<close> are taken to be inverse to each other on the
  saved object, so an item is either the object that was saved or text that does not parse,
  and \<open>setItem\<close> is taken to succeed (a failure is caught and leaves the storage as it was).
\<close>

subsection \<open>Data\<close>

record catalogEntry =
  title :: string

type_synonym catalog = "string \<Rightarrow> catalogEntry option"

record connection =
  song :: string
  connContext :: string

record songRef =
  songSlug :: "string option"
  songTitle :: string
  viaMusician :: string

datatype event =
  StateChange "(string option \<times> string) option"
  | NextSongQueued songRef

record savedState =
  savedFollowingMusician :: "string option"
  savedPlayedSongs :: "string list option"
  savedCurrentSongSlug :: "string option"
  savedFollowMode :: "string option"

datatype storageItem = Json savedState | Unparseable

type_synonym localStorage = "string \<Rightarrow> storageItem option"

record rabbitholeState =
  followingMusician :: "string option"
  playedSongs :: "string list"
  currentSongSlug :: "string option"
  followMode :: string
  history :: "songRef list"
  nextSong :: "songRef option"
  queue :: "string list"
  notified :: "event list"

subsection \<open>The insertion-ordered set\<close>

definition setAdd :: "string list \<Rightarrow> string \<Rightarrow> string list" where
  "setAdd xs x = (if x \<in> set xs then xs else xs @ [x])"

definition setDelete :: "string list \<Rightarrow> string option \<Rightarrow> string list" where
  "setDelete xs k = (case k of None \<Rightarrow> xs | Some x \<Rightarrow> filter (\<lambda>y. y \<noteq> x) xs)"

definition setFromList :: "string list \<Rightarrow> string list" where
  "setFromList xs = foldl setAdd [] xs"

subsection \<open>normalizeSlug\<close>

text \<open>
  \<open>title.toLowerCase().replace(/\s+/g, '-').replace(/'/g, '')\<close> on ASCII text: the
  letters A to Z are lowered, every maximal run of white space becomes one hyphen, and
  apostrophes are dropped.  Characters outside ASCII are left as they are.
\<close>

definition isSpace :: "char \<Rightarrow> bool" where
  "isSpace c = (c \<in> set [CHR '' '', CHR 0x09, CHR 0x0A, CHR 0x0B, CHR 0x0C, CHR 0x0D])"

definition toLowerChar :: "char \<Rightarrow> char" where
  "toLowerChar c =
     (let n = (of_char c :: nat) in if 65 \<le> n \<and> n \<le> 90 then char_of (n + 32) else c)"

fun replaceSpaceRuns :: "bool \<Rightarrow> string \<Rightarrow> string" where
  "replaceSpaceRuns inRun [] = []"
| "replaceSpaceRuns inRun (c # cs) =
     (if isSpace c then (if inRun then replaceSpaceRuns True cs
                         else CHR ''-'' # replaceSpaceRuns True cs)
      else c # replaceSpaceRuns False cs)"

definition normalizeSlug :: "string \<Rightarrow> string" where
  "normalizeSlug t =
     filter (\<lambda>c. c \<noteq> CHR 0x27) (replaceSpaceRuns False (map toLowerChar t))"

subsection \<open>Persistence\<close>

definition storageKey :: string where
  "storageKey = ''rabbitholeState''"

definition saveToStorage :: "rabbitholeState \<Rightarrow> localStorage \<Rightarrow> localStorage" where
  "saveToStorage s ls =
     ls(storageKey \<mapsto> Json \<lparr>savedFollowingMusician = followingMusician s,
                             savedPlayedSongs = Some (playedSongs s),
                             savedCurrentSongSlug = currentSongSlug s,
                             savedFollowMode = Some (followMode s)\<rparr>)"

definition loadFromStorage ::
  "localStorage \<Rightarrow> rabbitholeState \<Rightarrow> savedState option \<times> rabbitholeState" where
  "loadFromStorage ls s =
     (case ls storageKey of
        None \<Rightarrow> (None, s)
      | Some Unparseable \<Rightarrow> (None, s)
      | Some (Json parsed) \<Rightarrow>
          (Some parsed,
           s\<lparr>playedSongs :=
                setFromList (case savedPlayedSongs parsed of Some xs \<Rightarrow> xs | None \<Rightarrow> []),
             followMode :=
                (case savedFollowMode parsed of
                   Some m \<Rightarrow> if m \<noteq> [] then m else ''same''
                 | None \<Rightarrow> ''same'')\<rparr>))"

definition initialFields :: rabbitholeState where
  "initialFields =
     \<lparr>followingMusician = None, playedSongs = [], currentSongSlug = None,
      followMode = ''same'', history = [], nextSong = None, queue = [], notified = []\<rparr>"

text \<open>The constructor sets the fields and calls \<open>loadFromStorage\<close>, dropping its result.\<close>

definition constructor :: "localStorage \<Rightarrow> rabbitholeState" where
  "constructor ls = snd (loadFromStorage ls initialFields)"

subsection \<open>Queueing\<close>

text \<open>
  \<open>queueNextSongByMusician\<close> awaits \<open>getConnections(name)\<close>; the value it gets is the
  argument \<open>connectionsData\<close> (\<open>None\<close> for \<open>null\<close>).  \<open>Math.floor(Math.random() * n)\<close> is some
  index below \<open>n\<close>: the random draw is the natural number \<open>rnd\<close>, reduced modulo \<open>n\<close>.
\<close>

definition playable :: "catalog \<Rightarrow> rabbitholeState \<Rightarrow> connection \<Rightarrow> bool" where
  "playable cat s conn =
     (let slug = normalizeSlug (song conn);
          hasRabbithole = (cat slug \<noteq> None);
          notPlayed = (slug \<notin> set (playedSongs s));
          notCurrent = (Some slug \<noteq> currentSongSlug s)
      in hasRabbithole \<and> notPlayed \<and> notCurrent)"

definition queueNextSongByMusician ::
  "catalog \<Rightarrow> connection list option \<Rightarrow> nat \<Rightarrow> string \<Rightarrow> rabbitholeState \<Rightarrow> rabbitholeState"
where
  "queueNextSongByMusician cat connectionsData rnd musicianName s =
     (case connectionsData of
        None \<Rightarrow> s
      | Some conns \<Rightarrow>
          (let playableSongs = filter (playable cat s) conns in
           if length playableSongs = 0 then
             (let sentinel = \<lparr>songSlug = None, songTitle = ''No songs queued'',
                              viaMusician = musicianName\<rparr>
              in s\<lparr>nextSong := Some sentinel,
                   notified := notified s @ [NextSongQueued sentinel]\<rparr>)
           else
             (let randomIndex = rnd mod length playableSongs;
                  chosen = playableSongs ! randomIndex;
                  nextSlug = normalizeSlug (song chosen);
                  chosenTitle = (case cat nextSlug of Some e \<Rightarrow> title e | None \<Rightarrow> song chosen);
                  queued = \<lparr>songSlug = Some nextSlug, songTitle = chosenTitle,
                            viaMusician = musicianName\<rparr>
              in s\<lparr>queue := [nextSlug], nextSong := Some queued,
                   notified := notified s @ [NextSongQueued queued]\<rparr>)))"

subsection \<open>Current song, history and going back\<close>

text \<open>
  \<open>setCurrentSong\<close> first pushes a history entry for the previous song, under the guard
  \<open>this.currentSongSlug && this.nextSong\<close> and then \<open>if (currentSongData)\<close>; a slug is truthy
  when it is neither \<open>null\<close> nor the empty string.  It then marks the previous song as
  played under the guard \<open>if (this.currentSongSlug)\<close>.
\<close>

definition pushHistory :: "catalog \<Rightarrow> rabbitholeState \<Rightarrow> rabbitholeState" where
  "pushHistory cat s =
     (case currentSongSlug s of
        None \<Rightarrow> s
      | Some cur \<Rightarrow>
          if cur = [] then s
          else (case nextSong s of
                  None \<Rightarrow> s
                | Some ns \<Rightarrow>
                    (case cat cur of
                       None \<Rightarrow> s
                     | Some currentSongData \<Rightarrow>
                         s\<lparr>history := history s @
                              [\<lparr>songSlug = Some cur, songTitle = title currentSongData,
                                viaMusician = viaMusician ns\<rparr>]\<rparr>)))"

definition markPlayed :: "rabbitholeState \<Rightarrow> rabbitholeState" where
  "markPlayed s =
     (case currentSongSlug s of
        None \<Rightarrow> s
      | Some cur \<Rightarrow> if cur = [] then s else s\<lparr>playedSongs := setAdd (playedSongs s) cur\<rparr>)"

definition setCurrentSong ::
  "catalog \<Rightarrow> string \<Rightarrow> rabbitholeState \<times> localStorage \<Rightarrow> rabbitholeState \<times> localStorage"
where
  "setCurrentSong cat slug w =
     (let s1 = markPlayed (pushHistory cat (fst w));
          s2 = s1\<lparr>currentSongSlug := Some slug\<rparr>;
          ls = saveToStorage s2 (snd w)
      in (s2\<lparr>notified := notified s2 @ [StateChange None]\<rparr>, ls))"

definition goBack :: "rabbitholeState \<Rightarrow> songRef option \<times> rabbitholeState" where
  "goBack s =
     (if length (history s) = 0 then (None, s)
      else (let previousSong = last (history s)
            in (Some previousSong,
                s\<lparr>history := butlast (history s),
                  playedSongs := setDelete (playedSongs s) (songSlug previousSong)\<rparr>)))"

definition isPlayable :: "catalog \<Rightarrow> string \<Rightarrow> rabbitholeState \<Rightarrow> bool" where
  "isPlayable cat slug s =
     (cat slug \<noteq> None \<and> slug \<notin> set (playedSongs s) \<and> Some slug \<noteq> currentSongSlug s)"

section \<open>Rabbithole: the player (src/src/player/webamp-chartifacts.js)\<close>

subsection \<open>JavaScript values\<close>

text \<open>
  A JavaScript number is an exact rational or \<open>NaN\<close>: rounding, the infinities and the
  negative zero are not modelled.  A value of the track data is \<open>null\<close>, a boolean, a
  number, a string or an object; an object is the list of its own properties in the order
  \<open>Object.entries\<close> yields them, each name occurring once, and \<open>undefined\<close> is the absence of
  a property.
\<close>

datatype jsnum = Num rat | NaN

datatype jsval =
  JNull
  | JBool bool
  | JNumber jsnum
  | JStr string
  | JObj "(string \<times> jsval) list"

type_synonym obj = "(string \<times> jsval) list"

fun truthy :: "jsval \<Rightarrow> bool" where
  "truthy JNull = False"
| "truthy (JBool b) = b"
| "truthy (JNumber (Num r)) = (r \<noteq> 0)"
| "truthy (JNumber NaN) = False"
| "truthy (JStr s) = (s \<noteq> [])"
| "truthy (JObj fs) = True"

definition truthyProp :: "jsval option \<Rightarrow> bool" where
  "truthyProp p = (case p of None \<Rightarrow> False | Some v \<Rightarrow> truthy v)"

text \<open>\<open>v[name]\<close> for a property name that no primitive value carries.\<close>

definition getProp :: "jsval \<Rightarrow> string \<Rightarrow> jsval option" where
  "getProp v name = (case v of JObj fs \<Rightarrow> map_of fs name | _ \<Rightarrow> None)"

fun natToString :: "nat \<Rightarrow> string" where
  "natToString n =
     (if n < 10 then [char_of (48 + n)]
      else natToString (n div 10) @ [char_of (48 + n mod 10)])"

text \<open>
  The own enumerable properties of a value, as \<open>{...v}\<close> and \<open>Object.values(v)\<close> see them:
  those of an object, the indexed characters of a string, none for the other primitives.
\<close>

definition ownProps :: "jsval \<Rightarrow> obj" where
  "ownProps v =
     (case v of
        JObj fs \<Rightarrow> fs
      | JStr s \<Rightarrow> map (\<lambda>i. (natToString i, JStr [s ! i])) [0..<length s]
      | _ \<Rightarrow> [])"

text \<open>\<open>{...target, ...source}\<close>: each property of the source is written to the target.\<close>

definition spreadInto :: "obj \<Rightarrow> obj \<Rightarrow> obj" where
  "spreadInto target source = foldl (\<lambda>acc kv. AList.update (fst kv) (snd kv) acc) target source"

fun jsAdd :: "jsnum \<Rightarrow> jsnum \<Rightarrow> jsnum" where
  "jsAdd (Num a) (Num b) = Num (a + b)"
| "jsAdd _ _ = NaN"

fun jsMax :: "jsnum \<Rightarrow> jsnum \<Rightarrow> jsnum" where
  "jsMax (Num a) (Num b) = Num (max a b)"
| "jsMax _ _ = NaN"

subsection \<open>Reading numbers from strings\<close>

text \<open>
  \<open>parseFloat\<close> and \<open>Number\<close> on decimal literals: optional white space, an optional sign,
  digits with an optional fraction, an optional exponent.  \<open>parseFloat\<close> reads the longest
  prefix that is such a literal; \<open>Number\<close> wants the whole trimmed string to be one and
  reads the empty string as 0.  The literal \<open>Infinity\<close> and the hexadecimal, octal and
  binary literals of \<open>Number\<close> are outside this model and read as \<open>NaN\<close>.
\<close>

definition isDigit :: "char \<Rightarrow> bool" where
  "isDigit c = (let n = (of_char c :: nat) in 48 \<le> n \<and> n \<le> 57)"

definition digitsVal :: "string \<Rightarrow> nat" where
  "digitsVal ds = foldl (\<lambda>a c. 10 * a + ((of_char c :: nat) - 48)) 0 ds"

definition parseExponent :: "string \<Rightarrow> int \<times> string" where
  "parseExponent s =
     (case s of
        [] \<Rightarrow> (0, s)
      | c # r \<Rightarrow>
          if c = CHR ''e'' \<or> c = CHR ''E'' then
            (let neg = (case r of [] \<Rightarrow> False | d # _ \<Rightarrow> d = CHR ''-'');
                 signed = (case r of [] \<Rightarrow> False | d # _ \<Rightarrow> d = CHR ''-'' \<or> d = CHR ''+'');
                 r1 = (if signed then tl r else r);
                 ds = takeWhile isDigit r1
             in if ds = [] then (0, s)
                else ((if neg then - int (digitsVal ds) else int (digitsVal ds)),
                      dropWhile isDigit r1))
          else (0, s))"

definition parseDecimal :: "string \<Rightarrow> (rat \<times> string) option" where
  "parseDecimal s =
     (let whole = takeWhile isDigit s;
          r1 = dropWhile isDigit s;
          hasPoint = (case r1 of [] \<Rightarrow> False | c # _ \<Rightarrow> c = CHR ''.'');
          frac = (if hasPoint then takeWhile isDigit (tl r1) else []);
          r2 = (if hasPoint then dropWhile isDigit (tl r1) else r1)
      in if whole = [] \<and> frac = [] then None
         else (let mantissa = of_nat (digitsVal (whole @ frac)) / (10 ^ length frac);
                   ex = parseExponent r2;
                   scaled = (if fst ex < 0 then mantissa / (10 ^ nat (- fst ex))
                             else mantissa * (10 ^ nat (fst ex)))
               in Some (scaled, snd ex)))"

definition parseSigned :: "string \<Rightarrow> (rat \<times> string) option" where
  "parseSigned s =
     (case s of
        [] \<Rightarrow> None
      | c # r \<Rightarrow>
          if c = CHR ''-'' then map_option (\<lambda>p. (- fst p, snd p)) (parseDecimal r)
          else if c = CHR ''+'' then parseDecimal r
          else parseDecimal s)"

definition parseFloat :: "string \<Rightarrow> jsnum" where
  "parseFloat s =
     (case parseSigned (dropWhile isSpace s) of None \<Rightarrow> NaN | Some p \<Rightarrow> Num (fst p))"

definition trim :: "string \<Rightarrow> string" where
  "trim s = rev (dropWhile isSpace (rev (dropWhile isSpace s)))"

definition Number :: "string \<Rightarrow> jsnum" where
  "Number s =
     (let t = trim s in
      if t = [] then Num 0
      else (case parseSigned t of
              None \<Rightarrow> NaN
            | Some p \<Rightarrow> if snd p = [] then Num (fst p) else NaN))"

subsection \<open>Track data and the timeline resolver\<close>

text \<open>
  A track has a timeline (an object whose values are arrangement objects), an optional
  numeric \<open>standardSectionLength\<close> and an ensemble (musician name to instruments).
  The resolved timeline is either the raw timeline itself (string keys), or the object
  \<open>processed\<close>, whose keys are all numbers written as strings: that object is the list of
  the assignments \<open>processed[t] = v\<close> made to it, the newest first, read with \<open>map_of\<close> so
  that a later assignment to the same time shadows an earlier one.  The cache
  \<open>_processedTimeline\<close> only saves recomputation and is left out.
\<close>

record trackData =
  timeline :: "(string \<times> obj) list"
  standardSectionLength :: "rat option"
  ensemble :: "(string \<times> string list) list"

datatype processedTimeline =
  Raw "(string \<times> obj) list"
  | Resolved "(jsnum \<times> obj) list"

definition startsWithSection :: "string \<Rightarrow> bool" where
  "startsWithSection key = (take 7 key = ''section'')"

definition isNumericKey :: "string \<Rightarrow> bool" where
  "isNumericKey key = (parseFloat key \<noteq> NaN)"

definition explicitEntries :: "(string \<times> obj) list \<Rightarrow> (jsnum \<times> obj) list" where
  "explicitEntries tline =
     map (\<lambda>kv. (parseFloat (fst kv), snd kv)) (filter (\<lambda>kv. \<not> startsWithSection (fst kv)) tline)"

definition maxExplicitTime :: "jsnum list \<Rightarrow> jsnum" where
  "maxExplicitTime explicitTimes =
     (case explicitTimes of [] \<Rightarrow> Num 0 | t # ts \<Rightarrow> foldl jsMax t ts)"

definition sectionKey :: "nat \<Rightarrow> string" where
  "sectionKey i = ''section'' @ natToString i"

text \<open>
  The length a section consumes.  A \<open>length\<close> that is not a number is outside the track
  format (JavaScript would coerce or concatenate there); the model yields \<open>NaN\<close> for it.
\<close>

definition sectionLength :: "rat \<Rightarrow> obj \<Rightarrow> jsnum" where
  "sectionLength std sectionData =
     (case map_of sectionData ''length'' of
        None \<Rightarrow> Num std
      | Some (JNumber n) \<Rightarrow> n
      | Some _ \<Rightarrow> NaN)"

definition baseSectionData :: "obj \<Rightarrow> obj" where
  "baseSectionData sectionData = filter (\<lambda>kv. \<not> isNumericKey (fst kv)) sectionData"

definition subMoments :: "obj \<Rightarrow> obj" where
  "subMoments sectionData = filter (\<lambda>kv. isNumericKey (fst kv)) sectionData"

definition subMomentEntry :: "obj \<Rightarrow> jsval \<Rightarrow> obj" where
  "subMomentEntry base momentData =
     AList.update ''_isSubMoment'' (JBool True) (spreadInto base (ownProps momentData))"

definition sectionStartEntry :: "obj \<Rightarrow> obj" where
  "sectionStartEntry base = AList.update ''_isSectionStart'' (JBool True) base"

text \<open>One iteration of the loop over \<open>section1\<close> to \<open>section20\<close>, for a section that exists.\<close>

definition processSection ::
  "rat \<Rightarrow> obj \<Rightarrow> jsnum \<times> (jsnum \<times> obj) list \<Rightarrow> jsnum \<times> (jsnum \<times> obj) list" where
  "processSection std sectionData st =
     (let accumulatedTime = jsAdd (fst st) (sectionLength std sectionData);
          sectionStartTime = accumulatedTime;
          base = baseSectionData sectionData;
          withSubMoments =
            foldl (\<lambda>processed kv.
                     (parseFloat (fst kv), subMomentEntry base (snd kv)) # processed)
                  (snd st) (subMoments sectionData)
      in (accumulatedTime, (sectionStartTime, sectionStartEntry base) # withSubMoments))"

definition sectionStep ::
  "rat \<Rightarrow> (string \<times> obj) list \<Rightarrow> jsnum \<times> (jsnum \<times> obj) list \<Rightarrow> nat
     \<Rightarrow> jsnum \<times> (jsnum \<times> obj) list" where
  "sectionStep std tline st i =
     (case map_of tline (sectionKey i) of
        None \<Rightarrow> st
      | Some sectionData \<Rightarrow> processSection std sectionData st)"

definition processSections ::
  "rat \<Rightarrow> (string \<times> obj) list \<Rightarrow> nat \<Rightarrow> jsnum \<times> (jsnum \<times> obj) list" where
  "processSections std tline n =
     foldl (sectionStep std tline)
           (maxExplicitTime (map fst (explicitEntries tline)), rev (explicitEntries tline))
           [1..<Suc n]"

definition processTimelineKeys :: "trackData \<Rightarrow> processedTimeline" where
  "processTimelineKeys tr =
     (case standardSectionLength tr of
        None \<Rightarrow> Raw (timeline tr)
      | Some std \<Rightarrow>
          if std = 0 then Raw (timeline tr)
          else Resolved (snd (processSections std (timeline tr) 20)))"

subsection \<open>Song parts\<close>

text \<open>
  \<open>Object.entries(processedTimeline)\<close> with \<open>Number(timeStr)\<close> applied to each key: for the
  raw timeline the keys are read by \<open>Number\<close>, for \<open>processed\<close> each time that was assigned
  appears once, with the value assigned last.  The model lists the entries of \<open>processed\<close>
  newest assignment first, where JavaScript enumerates integer keys in ascending order and
  the other keys in the order of their first assignment; the entries are only ever used
  sorted by time.  \<open>sort\<close> with a comparator is a stable insertion sort, \<open>positive a b\<close>
  saying that the comparator is positive on \<open>(a, b)\<close>.  For times that are numbers and
  pairwise different the sorted sequence does not depend on the order before the sort;
  for a time \<open>NaN\<close> the comparator yields \<open>NaN\<close> and the language leaves the order to
  the engine, which the model does not follow.
\<close>

fun bindings :: "('k \<times> 'v) list \<Rightarrow> ('k \<times> 'v) list" where
  "bindings [] = []"
| "bindings (kv # rest) = kv # bindings (filter (\<lambda>kv'. fst kv' \<noteq> fst kv) rest)"

definition timelineEntries :: "processedTimeline \<Rightarrow> (jsnum \<times> obj) list" where
  "timelineEntries p =
     (case p of
        Raw tline \<Rightarrow> map (\<lambda>kv. (Number (fst kv), snd kv)) tline
      | Resolved ws \<Rightarrow> bindings ws)"

fun after :: "jsnum \<Rightarrow> jsnum \<Rightarrow> bool" where
  "after (Num a) (Num b) = (a - b > 0)"
| "after _ _ = False"

fun insertBy :: "('a \<Rightarrow> 'a \<Rightarrow> bool) \<Rightarrow> 'a \<Rightarrow> 'a list \<Rightarrow> 'a list" where
  "insertBy positive e [] = [e]"
| "insertBy positive e (x # xs) =
     (if positive e x then x # insertBy positive e xs else e # x # xs)"

definition sortByTime :: "(jsnum \<times> 'a) list \<Rightarrow> (jsnum \<times> 'a) list" where
  "sortByTime es = foldr (insertBy (\<lambda>a b. after (fst a) (fst b))) es []"

definition sortByTimeDescending :: "(jsnum \<times> 'a) list \<Rightarrow> (jsnum \<times> 'a) list" where
  "sortByTimeDescending es = foldr (insertBy (\<lambda>a b. after (fst b) (fst a))) es []"

definition partIncluded :: "obj \<Rightarrow> bool" where
  "partIncluded arrangement =
     (truthyProp (map_of arrangement ''part'') \<and>
      (truthyProp (map_of arrangement ''_isSectionStart'') \<or>
       \<not> truthyProp (map_of arrangement ''_isSubMoment'')))"

definition pushPart :: "jsval list \<Rightarrow> jsnum \<times> obj \<Rightarrow> jsval list" where
  "pushPart partSequence e =
     (case map_of (snd e) ''part'' of
        None \<Rightarrow> partSequence
      | Some p \<Rightarrow> if partIncluded (snd e) then partSequence @ [p] else partSequence)"

definition extractSongParts :: "trackData \<Rightarrow> jsval list" where
  "extractSongParts tr =
     foldl pushPart [] (sortByTime (timelineEntries (processTimelineKeys tr)))"

subsection \<open>Moments\<close>

text \<open>
  \<open>extractMomentTimes\<close> walks \<open>Object.entries(this.trackData.timeline)\<close>, the raw timeline,
  reading each key with \<open>Number\<close>.  A time is pushed only under \<open>time > 0\<close>, which is false
  for \<open>NaN\<close>, so the moment times are rationals.
\<close>

definition isInOrOut :: "jsval \<Rightarrow> bool" where
  "isInOrOut status = (status = JStr ''in'' \<or> status = JStr ''out'')"

definition musiciansMoment :: "obj \<Rightarrow> bool" where
  "musiciansMoment arrangement =
     (case map_of arrangement ''musicians'' of
        None \<Rightarrow> False
      | Some musicians \<Rightarrow>
          truthy musicians \<and>
          (if getProp musicians ''band'' = Some (JStr ''in'')
              \<or> getProp musicians ''band'' = Some (JStr ''out'')
           then True
           else list_ex isInOrOut (map snd (ownProps musicians))))"

definition legacyBandIn :: "obj \<Rightarrow> bool" where
  "legacyBandIn arrangement = (map_of arrangement ''detail'' = Some (JStr ''band-in''))"

definition momentPushes :: "string \<times> obj \<Rightarrow> rat list" where
  "momentPushes kv =
     (case Number (fst kv) of
        NaN \<Rightarrow> []
      | Num time \<Rightarrow>
          (if musiciansMoment (snd kv) \<and> time > 0 then [time] else []) @
          (if legacyBandIn (snd kv) \<and> time > 0 then [time] else []))"

definition extractMomentTimes :: "trackData \<Rightarrow> rat list" where
  "extractMomentTimes tr =
     sort (foldl (\<lambda>momentTimes kv. momentTimes @ momentPushes kv) [] (timeline tr))"

text \<open>
  \<open>checkForMoments(currentTime)\<close> sorts the pending moments into three buckets, calls
  \<open>triggerMoment\<close> on each moment of the second bucket in order, and keeps the first bucket
  as the new pending list.  The result is the list of moments triggered and the new
  pending list.
\<close>

record buckets =
  momentsNotYetReached :: "rat list"
  momentsToTrigger :: "rat list"
  momentsMissedAndNeedCulling :: "rat list"

definition classifyMoment :: "rat \<Rightarrow> buckets \<Rightarrow> rat \<Rightarrow> buckets" where
  "classifyMoment currentTime b momentTime =
     (let secondsSinceMoment = currentTime - momentTime in
      if secondsSinceMoment < 0
        then b\<lparr>momentsNotYetReached := momentsNotYetReached b @ [momentTime]\<rparr>
      else if secondsSinceMoment \<le> 1
        then b\<lparr>momentsToTrigger := momentsToTrigger b @ [momentTime]\<rparr>
      else b\<lparr>momentsMissedAndNeedCulling := momentsMissedAndNeedCulling b @ [momentTime]\<rparr>)"

definition sortIntoBuckets :: "rat \<Rightarrow> rat list \<Rightarrow> buckets" where
  "sortIntoBuckets currentTime upcomingMomentTimes =
     foldl (classifyMoment currentTime)
       \<lparr>momentsNotYetReached = [], momentsToTrigger = [], momentsMissedAndNeedCulling = []\<rparr>
       upcomingMomentTimes"

definition checkForMoments :: "rat \<Rightarrow> rat list \<Rightarrow> rat list \<times> rat list" where
  "checkForMoments currentTime upcomingMomentTimes =
     (let b = sortIntoBuckets currentTime upcomingMomentTimes
      in (momentsToTrigger b, momentsNotYetReached b))"

text \<open>
  A run of polling ticks: the moments triggered at each tick, and the pending list left
  after the run.
\<close>

fun triggeredAt :: "rat list \<Rightarrow> rat list \<Rightarrow> rat list list" where
  "triggeredAt upcoming [] = []"
| "triggeredAt upcoming (t # ticks) =
     fst (checkForMoments t upcoming) # triggeredAt (snd (checkForMoments t upcoming)) ticks"


text \<open>
  \<open>triggerMoment(momentTime)\<close> reads \<open>this.trackData.timeline[momentTime]\<close>: the property
  whose name is the number written as a string.  For a number printed without exponent
  that name is the one key in plain decimal form that \<open>Number\<close> reads as this number.
\<close>

datatype flash = FlashEntireEnsemble | FlashSpecificMusician string

definition plainDecimal :: "string \<Rightarrow> bool" where
  "plainDecimal key =
     (let body = (case key of [] \<Rightarrow> [] | c # r \<Rightarrow> if c = CHR ''-'' then r else key);
          whole = takeWhile isDigit body;
          rest = dropWhile isDigit body;
          frac = (case rest of [] \<Rightarrow> [] | c # r \<Rightarrow> r)
      in whole \<noteq> [] \<and> (whole = ''0'' \<or> hd whole \<noteq> CHR ''0'') \<and>
         (rest = [] \<or> (hd rest = CHR ''.'' \<and> frac \<noteq> [] \<and> list_all isDigit frac
                        \<and> last frac \<noteq> CHR ''0'')) \<and>
         key \<noteq> ''-0'')"

definition timelineAt :: "(string \<times> obj) list \<Rightarrow> rat \<Rightarrow> obj option" where
  "timelineAt tline t =
     map_option snd (find (\<lambda>kv. plainDecimal (fst kv) \<and> Number (fst kv) = Num t) tline)"

definition flashMusician :: "string \<times> jsval \<Rightarrow> flash list" where
  "flashMusician kv = (if isInOrOut (snd kv) then [FlashSpecificMusician (fst kv)] else [])"

definition triggerMoment :: "trackData \<Rightarrow> rat \<Rightarrow> flash list" where
  "triggerMoment tr momentTime =
     (case timelineAt (timeline tr) momentTime of
        None \<Rightarrow> []
      | Some arrangement \<Rightarrow>
          (case map_of arrangement ''musicians'' of
             None \<Rightarrow> []
           | Some musicians \<Rightarrow>
               if \<not> truthy musicians then []
               else if getProp musicians ''band'' = Some (JStr ''in'') then [FlashEntireEnsemble]
               else if getProp musicians ''band'' = Some (JStr ''out'') then [FlashEntireEnsemble]
               else concat (map flashMusician (ownProps musicians))) @
          (if legacyBandIn arrangement then [FlashEntireEnsemble] else []))"

subsection \<open>Dynamic weights\<close>

text \<open>
  \<open>initializeMusicianWeights\<close> gives the musicians of the ensemble the base weights
  100, 110, 120 and so on, in the order of \<open>Object.keys(this.trackData.ensemble)\<close>.
\<close>

definition initializeMusicianWeights :: "trackData \<Rightarrow> (string \<Rightarrow> rat option)" where
  "initializeMusicianWeights tr =
     fst (foldl (\<lambda>st musicianName. ((fst st)(musicianName \<mapsto> snd st), snd st + 10))
                (Map.empty, 100) (map fst (ensemble tr)))"

definition addRecentSoloist :: "string list \<Rightarrow> string \<Rightarrow> string list" where
  "addRecentSoloist recentSoloists musicianName =
     take 3 (musicianName # filter (\<lambda>name. name \<noteq> musicianName) recentSoloists)"

fun indexOf :: "'a list \<Rightarrow> 'a \<Rightarrow> nat option" where
  "indexOf [] x = None"
| "indexOf (y # ys) x = (if y = x then Some 0 else map_option Suc (indexOf ys x))"

definition isPickupStart :: "string \<Rightarrow> rat \<Rightarrow> jsnum \<times> obj \<Rightarrow> bool" where
  "isPickupStart musicianName currentTime e =
     ((case fst e of Num t \<Rightarrow> t \<le> currentTime | NaN \<Rightarrow> False) \<and>
      map_of (snd e) ''soloist'' = Some (JStr musicianName) \<and>
      map_of (snd e) ''type'' = Some (JStr ''pick up''))"

definition calculatePickupWeight :: "trackData \<Rightarrow> string \<Rightarrow> rat \<Rightarrow> rat" where
  "calculatePickupWeight tr musicianName currentTime =
     (case find (isPickupStart musicianName currentTime)
             (sortByTimeDescending (timelineEntries (processTimelineKeys tr))) of
        None \<Rightarrow> 5
      | Some pickupStart \<Rightarrow>
          (case fst pickupStart of
             NaN \<Rightarrow> 5
           | Num t \<Rightarrow>
               (let pickupDuration = currentTime - t;
                    maxPickupTime = 5;
                    progressRatio = min (pickupDuration / maxPickupTime) 1
                in 5 - progressRatio * 3)))"

definition sceneWeight :: "trackData \<Rightarrow> string \<Rightarrow> rat \<Rightarrow> jsval \<Rightarrow> rat" where
  "sceneWeight tr musicianName currentTime musicianScene =
     (if musicianScene = JStr ''lead'' then 1
      else if musicianScene = JStr ''pickup''
        then calculatePickupWeight tr musicianName currentTime
      else if musicianScene = JStr ''cooldown'' then 5
      else if musicianScene = JStr ''harmony'' then 7
      else if musicianScene = JStr ''rhythm'' then 8
      else 6)"

definition musicianSceneOf :: "obj option \<Rightarrow> string \<Rightarrow> jsval option" where
  "musicianSceneOf arrangement musicianName =
     (case arrangement of
        None \<Rightarrow> None
      | Some a \<Rightarrow>
          (case map_of a ''feature'' of
             None \<Rightarrow> None
           | Some features \<Rightarrow> if truthy features then getProp features musicianName else None))"

definition fieldOf :: "obj option \<Rightarrow> string \<Rightarrow> jsval option" where
  "fieldOf arrangement name = (case arrangement of None \<Rightarrow> None | Some a \<Rightarrow> map_of a name)"

text \<open>
  The weight of a musician; \<open>NaN\<close> where \<open>this.musicianWeights[musicianName]\<close> is
  \<open>undefined\<close> and the base weight is needed.
\<close>

definition calculateDynamicWeight ::
  "trackData \<Rightarrow> (string \<Rightarrow> rat option) \<Rightarrow> string list \<Rightarrow> string \<Rightarrow> rat \<Rightarrow> obj option \<Rightarrow> jsnum"
where
  "calculateDynamicWeight tr weights recentSoloists musicianName currentTime arrangement =
     (let baseWeight = weights musicianName;
          musicianScene = musicianSceneOf arrangement musicianName
      in if truthyProp musicianScene then
           (case musicianScene of
              None \<Rightarrow> NaN
            | Some scene \<Rightarrow> Num (sceneWeight tr musicianName currentTime scene))
         else
           (let soloMusician = fieldOf arrangement ''solo'';
                pickupMusician = fieldOf arrangement ''pickup''
            in if soloMusician = Some (JStr musicianName) then Num 1
               else if pickupMusician = Some (JStr musicianName)
                 then Num (calculatePickupWeight tr musicianName currentTime)
               else (case indexOf recentSoloists musicianName of
                       Some recentSoloistIndex \<Rightarrow> Num (10 + of_nat recentSoloistIndex)
                     | None \<Rightarrow>
                         (case baseWeight of
                            None \<Rightarrow> NaN
                          | Some b \<Rightarrow> Num (b + of_nat (length recentSoloists) * 5)))))"

text \<open>
  \<open>updateEnsembleDisplay\<close> takes \<open>arrangement.solo || arrangement.soloist\<close> as the current
  solo, the musician whose card is shown as the lead.
\<close>

definition currentSolo :: "obj option \<Rightarrow> jsval option" where
  "currentSolo arrangement =
     (if truthyProp (fieldOf arrangement ''solo'') then fieldOf arrangement ''solo''
      else fieldOf arrangement ''soloist'')"

section \<open>Specification wording and example inputs\<close>

subsection \<open>Discovery state\<close>

definition exampleCatalog :: catalog where
  "exampleCatalog =
     [''a'' \<mapsto> \<lparr>title = ''Song A''\<rparr>, ''b'' \<mapsto> \<lparr>title = ''Song B''\<rparr>,
      ''c'' \<mapsto> \<lparr>title = ''Song C''\<rparr>]"

definition exampleConnections :: "connection list" where
  "exampleConnections =
     [\<lparr>song = ''a'', connContext = ''guitar''\<rparr>, \<lparr>song = ''b'', connContext = ''guitar''\<rparr>,
      \<lparr>song = ''c'', connContext = ''guitar''\<rparr>]"

definition exampleState :: rabbitholeState where
  "exampleState = initialFields\<lparr>playedSongs := [''a''], currentSongSlug := Some ''b''\<rparr>"

definition followedState :: rabbitholeState where
  "followedState =
     initialFields\<lparr>followingMusician := Some ''Jerry'', playedSongs := [''b''],
                    currentSongSlug := Some ''a''\<rparr>"

definition queuedState :: rabbitholeState where
  "queuedState =
     followedState\<lparr>nextSong := Some \<lparr>songSlug = Some ''c'', songTitle = ''Song C'',
                                    viaMusician = ''Jerry''\<rparr>,
                   queue := [''c'']\<rparr>"

definition playedConnections :: "connection list" where
  "playedConnections =
     [\<lparr>song = ''a'', connContext = ''guitar''\<rparr>, \<lparr>song = ''b'', connContext = ''guitar''\<rparr>]"

subsection \<open>The section start times as the specification words them\<close>

text \<open>
  The cursor begins at the maximum explicit time, or at 0 when there is none; going
  through \<open>section1\<close>, \<open>section2\<close> and so on in order, it increases by the section's own
  \<open>length\<close> if the section has one and by \<open>standardSectionLength\<close> otherwise, and the start
  time of a section is the cursor after its increase.
\<close>

definition specExplicitTimes :: "(string \<times> obj) list \<Rightarrow> rat list" where
  "specExplicitTimes tline =
     concat (map (\<lambda>kv. if startsWithSection (fst kv) then []
                        else (case parseFloat (fst kv) of Num t \<Rightarrow> [t] | NaN \<Rightarrow> []))
                 tline)"

definition specCursorStart :: "(string \<times> obj) list \<Rightarrow> rat" where
  "specCursorStart tline =
     (if specExplicitTimes tline = [] then 0 else Max (set (specExplicitTimes tline)))"

definition specSectionIncrease :: "rat \<Rightarrow> (string \<times> obj) list \<Rightarrow> nat \<Rightarrow> rat" where
  "specSectionIncrease std tline j =
     (case map_of tline (sectionKey j) of
        None \<Rightarrow> 0
      | Some sectionData \<Rightarrow>
          (case map_of sectionData ''length'' of
             Some (JNumber (Num l)) \<Rightarrow> l
           | _ \<Rightarrow> std))"

definition specSectionStart :: "rat \<Rightarrow> (string \<times> obj) list \<Rightarrow> nat \<Rightarrow> rat" where
  "specSectionStart std tline i =
     specCursorStart tline + sum_list (map (specSectionIncrease std tline) [1..<Suc i])"

definition specNumericLength :: "obj \<Rightarrow> bool" where
  "specNumericLength a =
     (case map_of a ''length'' of
        None \<Rightarrow> True
      | Some (JNumber (Num l)) \<Rightarrow> True
      | Some _ \<Rightarrow> False)"

definition specWellFormedTimeline :: "(string \<times> obj) list \<Rightarrow> bool" where
  "specWellFormedTimeline tline =
     list_all (\<lambda>kv. if startsWithSection (fst kv) then specNumericLength (snd kv)
                     else parseFloat (fst kv) \<noteq> NaN)
              tline"

subsection \<open>The assignments of the later sections\<close>

text \<open>
  The assignments \<open>processed[t] = v\<close> that the loop makes after it has gone through
  \<open>section i\<close>, the newest first: what the iterations for the sections after \<open>i\<close> add in
  front of the assignments made up to \<open>section i\<close>.
\<close>

definition assignedAfter :: "rat \<Rightarrow> (string \<times> obj) list \<Rightarrow> nat \<Rightarrow> (jsnum \<times> obj) list" where
  "assignedAfter std tline i =
     take (length (snd (processSections std tline 20)) - length (snd (processSections std tline i)))
          (snd (processSections std tline 20))"

subsection \<open>Tracks\<close>

definition sectionTrack :: trackData where
  "sectionTrack =
     \<lparr>timeline =
        [(''0'', [(''part'', JStr ''intro'')]),
         (''section1'', [(''part'', JStr ''verse''),
                         (''musicians'', JObj [(''band'', JStr ''in'')])])],
      standardSectionLength = Some 30,
      ensemble = [(''Jerry'', [''guitar'']), (''David'', [''mandolin''])]\<rparr>"

definition legacyTrack :: trackData where
  "legacyTrack =
     \<lparr>timeline = [(''0'', [(''soloist'', JStr ''Jerry'')])],
      standardSectionLength = None,
      ensemble = [(''David'', [''mandolin'']), (''Jerry'', [''guitar''])]\<rparr>"


definition accumulationTrack :: trackData where
  "accumulationTrack =
     \<lparr>timeline =
        [(''10'', [(''part'', JStr ''intro'')]),
         (''section1'', [(''part'', JStr ''verse'')]),
         (''section2'', [(''part'', JStr ''chorus'')])],
      standardSectionLength = Some 30,
      ensemble = [(''Jerry'', [''guitar'']), (''David'', [''mandolin''])]\<rparr>"

definition subMomentTrack :: trackData where
  "subMomentTrack =
     \<lparr>timeline =
        [(''0'', [(''part'', JStr ''intro'')]),
         (''section1'',
            [(''45'', JObj [(''part'', JStr ''fill''), (''pickup'', JStr ''David'')]),
             (''part'', JStr ''verse''), (''solo'', JStr ''Jerry'')])],
      standardSectionLength = Some 30,
      ensemble = [(''Jerry'', [''guitar'']), (''David'', [''mandolin''])]\<rparr>"

definition overTrack :: trackData where
  "overTrack =
     \<lparr>timeline =
        [(''10'', [(''part'', JStr ''intro'')]),
         (''section1'',
            [(''40'', JObj [(''flourish'', JStr ''Jerry'')]), (''part'', JStr ''verse'')])],
      standardSectionLength = Some 30,
      ensemble = [(''Jerry'', [''guitar'']), (''David'', [''mandolin''])]\<rparr>"

section \<open>Properties of the discovery state\<close>

subsection \<open>Helper facts\<close>

lemma normalizeSlug_examples:
  "normalizeSlug ''a'' = ''a''" "normalizeSlug ''b'' = ''b''" "normalizeSlug ''c'' = ''c''"
  by code_simp+

lemma example_playable:
  "filter (playable exampleCatalog exampleState) exampleConnections
     = [\<lparr>song = ''c'', connContext = ''guitar''\<rparr>]"
  by (simp add: playable_def exampleCatalog_def exampleState_def exampleConnections_def
        initialFields_def normalizeSlug_examples)

lemma exampleCatalog_c: "exampleCatalog ''c'' = Some \<lparr>title = ''Song C''\<rparr>"
  by (simp add: exampleCatalog_def)

lemma exampleCatalog_a: "exampleCatalog ''a'' = Some \<lparr>title = ''Song A''\<rparr>"
  by (simp add: exampleCatalog_def)

lemma played_not_playable:
  "\<forall>conn \<in> set playedConnections. \<not> playable exampleCatalog exampleState conn"
  by (simp add: playedConnections_def playable_def exampleState_def initialFields_def
        normalizeSlug_examples)

lemma queueNext_keeps:
  "history (queueNextSongByMusician cat cd rnd name s) = history s"
  "playedSongs (queueNextSongByMusician cat cd rnd name s) = playedSongs s"
  "currentSongSlug (queueNextSongByMusician cat cd rnd name s) = currentSongSlug s"
  by (simp_all add: queueNextSongByMusician_def Let_def split: option.splits)

lemma markPlayed_fields:
  "history (markPlayed s) = history s"
  "playedSongs (markPlayed s) =
     (case currentSongSlug s of
        None \<Rightarrow> playedSongs s
      | Some cur \<Rightarrow> if cur = [] then playedSongs s else setAdd (playedSongs s) cur)"
  by (simp_all add: markPlayed_def split: option.splits)

lemma setCurrentSong_fields:
  "currentSongSlug (fst (setCurrentSong cat slug w)) = Some slug"
  "history (fst (setCurrentSong cat slug w)) = history (pushHistory cat (fst w))"
  "playedSongs (fst (setCurrentSong cat slug w)) = playedSongs (markPlayed (pushHistory cat (fst w)))"
  by (simp_all add: setCurrentSong_def Let_def markPlayed_fields(1))

lemma pushHistory_keeps:
  "currentSongSlug (pushHistory cat s) = currentSongSlug s"
  "playedSongs (pushHistory cat s) = playedSongs s"
  by (simp_all add: pushHistory_def split: option.splits)

lemma pushHistory_history:
  "history (pushHistory cat s) =
     (case currentSongSlug s of
        None \<Rightarrow> history s
      | Some cur \<Rightarrow>
          if cur = [] then history s
          else (case nextSong s of
                  None \<Rightarrow> history s
                | Some ns \<Rightarrow>
                    (case cat cur of
                       None \<Rightarrow> history s
                     | Some d \<Rightarrow> history s @ [\<lparr>songSlug = Some cur, songTitle = title d,
                                                viaMusician = viaMusician ns\<rparr>])))"
  by (simp add: pushHistory_def split: option.splits)

lemma set_setAdd: "set (setAdd xs x) = insert x (set xs)"
  by (auto simp: setAdd_def)

lemma goBack_keeps_unlisted:
  assumes "p \<in> set (playedSongs s)" and "Some p \<notin> songSlug ` set (history s)"
  shows "p \<in> set (playedSongs (snd (goBack s)))"
    and "Some p \<notin> songSlug ` set (history (snd (goBack s)))"
    and "map_option songSlug (fst (goBack s)) \<noteq> Some (Some p)"
proof -
  show "p \<in> set (playedSongs (snd (goBack s)))"
  proof (cases "history s = []")
    case True
    with assms show ?thesis by (simp add: goBack_def)
  next
    case False
    then have "last (history s) \<in> set (history s)" by simp
    with assms(2) have "songSlug (last (history s)) \<noteq> Some p" by force
    with assms(1) False show ?thesis
      by (auto simp: goBack_def Let_def setDelete_def split: option.splits)
  qed
  show "Some p \<notin> songSlug ` set (history (snd (goBack s)))"
    using assms(2) by (auto simp: goBack_def Let_def dest: in_set_butlastD)
  show "map_option songSlug (fst (goBack s)) \<noteq> Some (Some p)"
  proof (cases "history s = []")
    case True
    then show ?thesis by (simp add: goBack_def)
  next
    case False
    then have "last (history s) \<in> set (history s)" by simp
    with assms(2) have "songSlug (last (history s)) \<noteq> Some p" by force
    with False show ?thesis by (simp add: goBack_def Let_def)
  qed
qed

lemma goBack_iterated_keeps_unlisted:
  assumes "p \<in> set (playedSongs s)" and "Some p \<notin> songSlug ` set (history s)"
  shows "p \<in> set (playedSongs (((snd \<circ> goBack) ^^ n) s))
         \<and> Some p \<notin> songSlug ` set (history (((snd \<circ> goBack) ^^ n) s))"
proof (induction n)
  case 0
  from assms show ?case by simp
next
  case (Suc n)
  then show ?case using goBack_keeps_unlisted(1,2) by simp
qed

lemma setFromList_distinct: "distinct xs \<Longrightarrow> setFromList xs = xs"
proof -
  have "distinct (acc @ xs) \<Longrightarrow> foldl setAdd acc xs = acc @ xs" for acc
    by (induction xs arbitrary: acc) (auto simp: setAdd_def)
  from this [of "[]"] show "distinct xs \<Longrightarrow> setFromList xs = xs"
    by (simp add: setFromList_def)
qed

lemma constructor_after_save:
  "constructor (saveToStorage s ls) =
     initialFields\<lparr>playedSongs := setFromList (playedSongs s),
                   followMode := (if followMode s \<noteq> [] then followMode s else ''same'')\<rparr>"
  "fst (loadFromStorage (saveToStorage s ls) s0) =
     Some \<lparr>savedFollowingMusician = followingMusician s,
           savedPlayedSongs = Some (playedSongs s),
           savedCurrentSongSlug = currentSongSlug s,
           savedFollowMode = Some (followMode s)\<rparr>"
  by (simp_all add: constructor_def loadFromStorage_def saveToStorage_def)

subsection \<open>Selection\<close>

text \<open>
  Claim C3 (discovery selection soundness).  When \<open>queueNextSongByMusician\<close> receives a
  connections list and leaves a recommendation that carries a slug, that slug is in the
  catalog, is not among the played songs, is not the current song, is the normalized slug
  of one of the connections, and is the single entry of the queue.  With the catalog
  \<open>{a, b, c}\<close>, \<open>a\<close> played, \<open>b\<close> current and the connections \<open>[a, b, c]\<close>, every random
  draw selects \<open>c\<close>.
\<close>

theorem queueNext_selection_sound:
  assumes "nextSong (queueNextSongByMusician cat (Some conns) rnd name s) = Some q"
    and "songSlug q = Some slug"
  shows "cat slug \<noteq> None \<and> slug \<notin> set (playedSongs s) \<and> Some slug \<noteq> currentSongSlug s
         \<and> queue (queueNextSongByMusician cat (Some conns) rnd name s) = [slug]
         \<and> (\<exists>conn \<in> set conns. normalizeSlug (song conn) = slug)"
proof -
  let ?ps = "filter (playable cat s) conns"
  show ?thesis
  proof (cases "?ps = []")
    case True
    with assms show ?thesis
      by (auto simp: queueNextSongByMusician_def Let_def)
  next
    case False
    let ?chosen = "?ps ! (rnd mod length ?ps)"
    from False have "rnd mod length ?ps < length ?ps" by simp
    then have mem: "?chosen \<in> set ?ps" by (rule nth_mem)
    then have pl: "playable cat s ?chosen" and inconns: "?chosen \<in> set conns" by auto
    from False assms have slug: "slug = normalizeSlug (song ?chosen)"
      by (auto simp: queueNextSongByMusician_def Let_def)
    from False have q: "queue (queueNextSongByMusician cat (Some conns) rnd name s)
        = [normalizeSlug (song ?chosen)]"
      by (simp add: queueNextSongByMusician_def Let_def)
    from pl slug q inconns show ?thesis
      by (auto simp: playable_def Let_def)
  qed
qed

theorem queueNext_selection_sound_witness:
  "\<forall>rnd. nextSong (queueNextSongByMusician exampleCatalog (Some exampleConnections) rnd
                  ''Jerry'' exampleState)
           = Some \<lparr>songSlug = Some ''c'', songTitle = ''Song C'', viaMusician = ''Jerry''\<rparr>
        \<and> exampleCatalog ''c'' \<noteq> None \<and> ''c'' \<notin> set (playedSongs exampleState)
        \<and> Some ''c'' \<noteq> currentSongSlug exampleState
        \<and> queue (queueNextSongByMusician exampleCatalog (Some exampleConnections) rnd
                  ''Jerry'' exampleState) = [''c'']"
proof
  fix rnd
  have n: "nextSong (queueNextSongByMusician exampleCatalog (Some exampleConnections) rnd
                  ''Jerry'' exampleState)
           = Some \<lparr>songSlug = Some ''c'', songTitle = ''Song C'', viaMusician = ''Jerry''\<rparr>"
    by (simp add: queueNextSongByMusician_def example_playable normalizeSlug_examples
          exampleCatalog_c Let_def)
  from queueNext_selection_sound [OF n, of "''c''"] n
  show "nextSong (queueNextSongByMusician exampleCatalog (Some exampleConnections) rnd
                  ''Jerry'' exampleState)
           = Some \<lparr>songSlug = Some ''c'', songTitle = ''Song C'', viaMusician = ''Jerry''\<rparr>
        \<and> exampleCatalog ''c'' \<noteq> None \<and> ''c'' \<notin> set (playedSongs exampleState)
        \<and> Some ''c'' \<noteq> currentSongSlug exampleState
        \<and> queue (queueNextSongByMusician exampleCatalog (Some exampleConnections) rnd
                  ''Jerry'' exampleState) = [''c'']"
    by (simp add: exampleState_def initialFields_def)
qed

text \<open>
  Claim C7 (no-candidate sentinel), as stated, covers the case of no connections data.
  There the guard \<open>if (!connectionsData) return\<close> leaves \<open>nextSong\<close> as it was and
  notifies nobody.
\<close>

theorem queueNext_null_connections_counterexample:
  "nextSong (queueNextSongByMusician exampleCatalog None 0 ''Jerry'' exampleState) = None
   \<and> notified (queueNextSongByMusician exampleCatalog None 0 ''Jerry'' exampleState) = []"
  by (simp add: queueNextSongByMusician_def exampleState_def initialFields_def)

text \<open>
  Claim C7, amended.  When \<open>queueNextSongByMusician\<close> receives a connections list (empty
  or not) none of whose entries passes the filter, \<open>nextSong\<close> becomes the sentinel whose
  \<open>songSlug\<close> is \<open>null\<close>, \<open>onNextSongQueued\<close> is called with that sentinel, and the queue is
  left alone; when it receives no connections data, the state is unchanged.
\<close>

theorem queueNext_no_candidate_sentinel:
  assumes "\<forall>conn \<in> set conns. \<not> playable cat s conn"
  shows "nextSong (queueNextSongByMusician cat (Some conns) rnd name s)
           = Some \<lparr>songSlug = None, songTitle = ''No songs queued'', viaMusician = name\<rparr>
         \<and> notified (queueNextSongByMusician cat (Some conns) rnd name s)
           = notified s @ [NextSongQueued \<lparr>songSlug = None, songTitle = ''No songs queued'',
                                           viaMusician = name\<rparr>]
         \<and> queue (queueNextSongByMusician cat (Some conns) rnd name s) = queue s
         \<and> queueNextSongByMusician cat None rnd name s = s"
proof -
  from assms have "filter (playable cat s) conns = []"
    by (simp add: filter_empty_conv)
  then show ?thesis
    by (simp add: queueNextSongByMusician_def Let_def)
qed

theorem queueNext_no_candidate_sentinel_witness:
  "nextSong (queueNextSongByMusician exampleCatalog (Some playedConnections) 3 ''Jerry''
       exampleState)
     = Some \<lparr>songSlug = None, songTitle = ''No songs queued'', viaMusician = ''Jerry''\<rparr>
   \<and> notified (queueNextSongByMusician exampleCatalog (Some playedConnections) 3 ''Jerry''
       exampleState)
     = [NextSongQueued \<lparr>songSlug = None, songTitle = ''No songs queued'',
                        viaMusician = ''Jerry''\<rparr>]
   \<and> nextSong (queueNextSongByMusician exampleCatalog (Some []) 3 ''Jerry'' exampleState)
     = Some \<lparr>songSlug = None, songTitle = ''No songs queued'', viaMusician = ''Jerry''\<rparr>"
  using queueNext_no_candidate_sentinel [OF played_not_playable, of 3 "''Jerry''"]
    queueNext_no_candidate_sentinel [of "[]" exampleCatalog exampleState 3 "''Jerry''"]
  by (simp add: exampleState_def initialFields_def)

subsection \<open>History\<close>

text \<open>
  Claim C4 (history/back round trip), as stated, asks only that the previous song is set,
  is in the catalog and differs from the new one.  Without a pending recommendation
  (\<open>nextSong\<close> is \<open>null\<close>) no history entry is pushed, so \<open>goBack\<close> returns nothing and
  the previous song stays played and unplayable.
\<close>

theorem goBack_without_recommendation_counterexample:
  "currentSongSlug followedState = Some ''a'' \<and> exampleCatalog ''a'' \<noteq> None
   \<and> fst (goBack (fst (setCurrentSong exampleCatalog ''c'' (followedState, Map.empty)))) = None
   \<and> ''a'' \<in> set (playedSongs (snd (goBack (fst (setCurrentSong exampleCatalog ''c''
                                                     (followedState, Map.empty))))))
   \<and> \<not> isPlayable exampleCatalog ''a''
          (snd (goBack (fst (setCurrentSong exampleCatalog ''c'' (followedState, Map.empty)))))"
  by (simp add: setCurrentSong_def pushHistory_def markPlayed_def goBack_def isPlayable_def
        followedState_def initialFields_def setAdd_def exampleCatalog_a Let_def)

text \<open>
  Claim C4, amended.  If the current song \<open>x0\<close> is set (a non-empty slug), is in the
  catalog, a recommendation \<open>nextSong\<close> is pending, and \<open>x\<close> differs from \<open>x0\<close>, then
  \<open>setCurrentSong(x)\<close>, an optional \<open>queueNextSongByMusician\<close>, and \<open>goBack()\<close> return
  the entry of \<open>x0\<close> (with the catalog title and the recommending musician), remove
  \<open>x0\<close> from the played songs so that \<open>isPlayable(x0)\<close> holds, and restore the history.
\<close>

theorem setCurrentSong_goBack_round_trip:
  assumes "currentSongSlug s = Some x0" and "x0 \<noteq> []" and "cat x0 = Some d"
    and "nextSong s = Some ns" and "x \<noteq> x0"
  shows "fst (goBack (queueNextSongByMusician cat cd rnd name
                        (fst (setCurrentSong cat x (s, ls)))))
           = Some \<lparr>songSlug = Some x0, songTitle = title d, viaMusician = viaMusician ns\<rparr>
         \<and> x0 \<notin> set (playedSongs (snd (goBack (queueNextSongByMusician cat cd rnd name
                                                 (fst (setCurrentSong cat x (s, ls)))))))
         \<and> isPlayable cat x0 (snd (goBack (queueNextSongByMusician cat cd rnd name
                                              (fst (setCurrentSong cat x (s, ls))))))
         \<and> history (snd (goBack (queueNextSongByMusician cat cd rnd name
                                    (fst (setCurrentSong cat x (s, ls)))))) = history s"
proof -
  let ?s1 = "queueNextSongByMusician cat cd rnd name (fst (setCurrentSong cat x (s, ls)))"
  let ?e = "\<lparr>songSlug = Some x0, songTitle = title d, viaMusician = viaMusician ns\<rparr>"
  from assms have h: "history ?s1 = history s @ [?e]"
    by (simp add: queueNext_keeps setCurrentSong_fields pushHistory_history)
  have c: "currentSongSlug ?s1 = Some x"
    by (simp add: queueNext_keeps setCurrentSong_fields)
  from h have r: "fst (goBack ?s1) = Some ?e"
    by (simp add: goBack_def Let_def)
  from h have p: "playedSongs (snd (goBack ?s1)) = filter (\<lambda>y. y \<noteq> x0) (playedSongs ?s1)"
    by (simp add: goBack_def Let_def setDelete_def)
  from h have h2: "history (snd (goBack ?s1)) = history s"
    by (simp add: goBack_def Let_def)
  from h c have c2: "currentSongSlug (snd (goBack ?s1)) = Some x"
    by (simp add: goBack_def Let_def)
  from p have np: "x0 \<notin> set (playedSongs (snd (goBack ?s1)))" by simp
  from np c2 assms have "isPlayable cat x0 (snd (goBack ?s1))"
    by (simp add: isPlayable_def)
  with r np h2 show ?thesis by simp
qed

theorem setCurrentSong_goBack_round_trip_witness:
  "currentSongSlug queuedState = Some ''a'' \<and> ''a'' \<noteq> [] \<and>
   exampleCatalog ''a'' = Some \<lparr>title = ''Song A''\<rparr> \<and>
   fst (goBack (queueNextSongByMusician exampleCatalog None 0 ''Jerry''
                  (fst (setCurrentSong exampleCatalog ''c'' (queuedState, Map.empty)))))
     = Some \<lparr>songSlug = Some ''a'', songTitle = ''Song A'', viaMusician = ''Jerry''\<rparr>
   \<and> isPlayable exampleCatalog ''a''
        (snd (goBack (queueNextSongByMusician exampleCatalog None 0 ''Jerry''
                        (fst (setCurrentSong exampleCatalog ''c'' (queuedState, Map.empty))))))"
proof -
  have 1: "currentSongSlug queuedState = Some ''a''"
    by (simp add: queuedState_def followedState_def initialFields_def)
  have 2: "nextSong queuedState
      = Some \<lparr>songSlug = Some ''c'', songTitle = ''Song C'', viaMusician = ''Jerry''\<rparr>"
    by (simp add: queuedState_def followedState_def initialFields_def)
  have 3: "''a'' \<noteq> []" "''c'' \<noteq> ''a''" by simp_all
  from setCurrentSong_goBack_round_trip [where s = queuedState and ?x0.0 = "''a''"
      and cat = exampleCatalog and x = "''c''" and cd = None and rnd = 0
      and name = "''Jerry''" and ls = Map.empty, OF 1 3(1) exampleCatalog_a 2 3(2)]
    1 exampleCatalog_a
  show ?thesis by simp
qed

text \<open>
  Claim C10 (played without history).  After \<open>setCurrentSong\<close> on a state whose current
  song \<open>p\<close> is set, \<open>p\<close> is among the played songs in every case, while the history grows
  by an entry for \<open>p\<close> exactly when \<open>nextSong\<close> is not \<open>null\<close> and the catalog contains
  \<open>p\<close>.  So \<open>p\<close> is not playable afterwards, and when no entry was pushed and the
  history held none for \<open>p\<close>, no number of \<open>goBack\<close> calls returns \<open>p\<close> or takes it out of
  the played songs.
\<close>

theorem setCurrentSong_played_without_history:
  assumes "currentSongSlug s = Some p" and "p \<noteq> []"
  shows "p \<in> set (playedSongs (fst (setCurrentSong cat slug (s, ls))))
         \<and> history (fst (setCurrentSong cat slug (s, ls)))
             = (case nextSong s of
                  None \<Rightarrow> history s
                | Some ns \<Rightarrow>
                    (case cat p of
                       None \<Rightarrow> history s
                     | Some d \<Rightarrow> history s @ [\<lparr>songSlug = Some p, songTitle = title d,
                                                viaMusician = viaMusician ns\<rparr>]))
         \<and> \<not> isPlayable cat p (fst (setCurrentSong cat slug (s, ls)))
         \<and> (if (nextSong s = None \<or> cat p = None) \<and> Some p \<notin> songSlug ` set (history s)
            then (\<forall>n. p \<in> set (playedSongs (((snd \<circ> goBack) ^^ n)
                                               (fst (setCurrentSong cat slug (s, ls)))))
                      \<and> map_option songSlug
                           (fst (goBack (((snd \<circ> goBack) ^^ n)
                                           (fst (setCurrentSong cat slug (s, ls))))))
                          \<noteq> Some (Some p))
            else True)"
proof -
  let ?s' = "fst (setCurrentSong cat slug (s, ls))"
  from assms have played: "p \<in> set (playedSongs ?s')"
    by (simp add: setCurrentSong_fields markPlayed_fields pushHistory_keeps set_setAdd)
  from assms have hist: "history ?s'
             = (case nextSong s of
                  None \<Rightarrow> history s
                | Some ns \<Rightarrow>
                    (case cat p of
                       None \<Rightarrow> history s
                     | Some d \<Rightarrow> history s @ [\<lparr>songSlug = Some p, songTitle = title d,
                                                viaMusician = viaMusician ns\<rparr>]))"
    by (simp add: setCurrentSong_fields pushHistory_history)
  from played have np: "\<not> isPlayable cat p ?s'" by (simp add: isPlayable_def)
  have stays: "\<forall>n. p \<in> set (playedSongs (((snd \<circ> goBack) ^^ n) ?s'))
                      \<and> map_option songSlug (fst (goBack (((snd \<circ> goBack) ^^ n) ?s')))
                          \<noteq> Some (Some p)"
    if c: "nextSong s = None \<or> cat p = None" and d: "Some p \<notin> songSlug ` set (history s)"
  proof
    fix n
    from c hist have "history ?s' = history s" by (auto split: option.splits)
    with d have un: "Some p \<notin> songSlug ` set (history ?s')" by simp
    from goBack_iterated_keeps_unlisted [OF played un, of n]
      goBack_keeps_unlisted(3) [of p "((snd \<circ> goBack) ^^ n) ?s'"]
    show "p \<in> set (playedSongs (((snd \<circ> goBack) ^^ n) ?s'))
                      \<and> map_option songSlug (fst (goBack (((snd \<circ> goBack) ^^ n) ?s')))
                          \<noteq> Some (Some p)" by blast
  qed
  from played hist np stays show ?thesis by simp
qed

theorem setCurrentSong_played_without_history_witness:
  "currentSongSlug followedState = Some ''a'' \<and> ''a'' \<noteq> [] \<and> nextSong followedState = None
   \<and> exampleCatalog ''a'' \<noteq> None
   \<and> ''a'' \<in> set (playedSongs (fst (setCurrentSong exampleCatalog ''c'' (followedState, Map.empty))))
   \<and> history (fst (setCurrentSong exampleCatalog ''c'' (followedState, Map.empty))) = []
   \<and> \<not> isPlayable exampleCatalog ''a''
          (fst (setCurrentSong exampleCatalog ''c'' (followedState, Map.empty)))
   \<and> ''a'' \<in> set (playedSongs (snd (goBack
          (fst (setCurrentSong exampleCatalog ''c'' (followedState, Map.empty))))))"
proof -
  have 1: "currentSongSlug followedState = Some ''a''" "nextSong followedState = None"
    "history followedState = []"
    by (simp_all add: followedState_def initialFields_def)
  have 2: "''a'' \<noteq> []" by simp
  from setCurrentSong_played_without_history [OF 1(1) 2, of exampleCatalog "''c''" Map.empty]
  have "''a'' \<in> set (playedSongs (fst (setCurrentSong exampleCatalog ''c'' (followedState, Map.empty))))
    \<and> history (fst (setCurrentSong exampleCatalog ''c'' (followedState, Map.empty))) = []
    \<and> \<not> isPlayable exampleCatalog ''a''
          (fst (setCurrentSong exampleCatalog ''c'' (followedState, Map.empty)))
    \<and> (\<forall>n. ''a'' \<in> set (playedSongs (((snd \<circ> goBack) ^^ n)
                         (fst (setCurrentSong exampleCatalog ''c'' (followedState, Map.empty))))))"
    by (simp add: 1)
  then have "''a'' \<in> set (playedSongs (fst (setCurrentSong exampleCatalog ''c'' (followedState, Map.empty))))
    \<and> history (fst (setCurrentSong exampleCatalog ''c'' (followedState, Map.empty))) = []
    \<and> \<not> isPlayable exampleCatalog ''a''
          (fst (setCurrentSong exampleCatalog ''c'' (followedState, Map.empty)))
    \<and> ''a'' \<in> set (playedSongs (((snd \<circ> goBack) ^^ 1)
                         (fst (setCurrentSong exampleCatalog ''c'' (followedState, Map.empty)))))"
    by blast
  with 1 2 exampleCatalog_a show ?thesis by simp
qed

subsection \<open>Persistence\<close>

text \<open>
  Claim C8 (persistence round trip) at a state that follows a musician and has a current
  song: \<open>saveToStorage\<close> writes the four fields under the key \<open>rabbitholeState\<close>, and the
  state constructed afterwards has the saved played songs and follow mode, but neither
  the saved \<open>followingMusician\<close> nor the saved \<open>currentSongSlug\<close>: both are \<open>null\<close>.
\<close>

theorem constructor_after_save_drops_fields:
  "followingMusician followedState = Some ''Jerry''
   \<and> currentSongSlug followedState = Some ''a''
   \<and> saveToStorage followedState Map.empty storageKey
       = Some (Json \<lparr>savedFollowingMusician = Some ''Jerry'', savedPlayedSongs = Some [''b''],
                      savedCurrentSongSlug = Some ''a'', savedFollowMode = Some ''same''\<rparr>)
   \<and> followingMusician (constructor (saveToStorage followedState Map.empty)) = None
   \<and> currentSongSlug (constructor (saveToStorage followedState Map.empty)) = None
   \<and> playedSongs (constructor (saveToStorage followedState Map.empty)) = [''b'']
   \<and> followMode (constructor (saveToStorage followedState Map.empty)) = ''same''"
proof -
  have 1: "constructor (saveToStorage followedState Map.empty)
      = initialFields\<lparr>playedSongs := [''b'']\<rparr>"
    by (simp add: constructor_after_save(1) followedState_def initialFields_def
          setFromList_def setAdd_def)
  have 2: "saveToStorage followedState Map.empty storageKey
       = Some (Json \<lparr>savedFollowingMusician = Some ''Jerry'', savedPlayedSongs = Some [''b''],
                      savedCurrentSongSlug = Some ''a'', savedFollowMode = Some ''same''\<rparr>)"
    by (simp add: saveToStorage_def followedState_def initialFields_def)
  have 3: "followingMusician followedState = Some ''Jerry''"
    "currentSongSlug followedState = Some ''a''"
    by (simp_all add: followedState_def initialFields_def)
  from 2 3 show ?thesis
    unfolding 1 by (simp add: initialFields_def)
qed

section \<open>Properties of the player\<close>

subsection \<open>The timeline resolver\<close>

lemma explicit_times_numeric:
  "specWellFormedTimeline tline \<Longrightarrow>
     map fst (explicitEntries tline) = map Num (specExplicitTimes tline)"
  by (induction tline)
     (auto simp: specWellFormedTimeline_def explicitEntries_def specExplicitTimes_def
           split: jsnum.splits if_splits)

lemma foldl_jsMax:
  "foldl jsMax (Num a) (map Num ts) = Num (Max (set (a # ts)))"
proof (induction ts arbitrary: a)
  case Nil
  show ?case by simp
next
  case (Cons t ts)
  have "Max (set (max a t # ts)) = Max (set (a # t # ts))"
    by (cases "ts = []") (simp_all add: max.assoc)
  with Cons.IH [of "max a t"] show ?case by simp
qed

lemma maxExplicitTime_numeric:
  "maxExplicitTime (map Num ts) = Num (if ts = [] then 0 else Max (set ts))"
  by (cases ts) (simp_all add: maxExplicitTime_def foldl_jsMax del: set_simps Max_insert)

lemma startsWithSection_sectionKey: "startsWithSection (sectionKey i)"
  by (simp add: startsWithSection_def sectionKey_def)

lemma processSections_Suc:
  "processSections std tline (Suc n) =
     sectionStep std tline (processSections std tline n) (Suc n)"
  by (simp add: processSections_def)

lemma processSections_0:
  "processSections std tline 0 =
     (maxExplicitTime (map fst (explicitEntries tline)), rev (explicitEntries tline))"
  by (simp add: processSections_def)

lemma processSection_cursor:
  "fst (processSection std sd st) = jsAdd (fst st) (sectionLength std sd)"
  by (simp add: processSection_def Let_def)

lemma foldl_cons_rev: "foldl (\<lambda>p x. g x # p) p0 xs = rev (map g xs) @ p0"
  by (induction xs arbitrary: p0) simp_all

lemma processSection_writes:
  "snd (processSection std sd st) =
     (jsAdd (fst st) (sectionLength std sd), sectionStartEntry (baseSectionData sd))
       # rev (map (\<lambda>kv. (parseFloat (fst kv), subMomentEntry (baseSectionData sd) (snd kv)))
                  (subMoments sd))
       @ snd st"
  by (simp add: processSection_def Let_def foldl_cons_rev)

lemma cursor_is_spec:
  assumes "specWellFormedTimeline tline"
  shows "fst (processSections std tline n) = Num (specSectionStart std tline n)"
proof (induction n)
  case 0
  from assms show ?case
    by (simp add: processSections_0 explicit_times_numeric maxExplicitTime_numeric
          specSectionStart_def specCursorStart_def)
next
  case (Suc n)
  have up: "[1..<Suc (Suc n)] = [1..<Suc n] @ [Suc n]" by simp
  show ?case
  proof (cases "map_of tline (sectionKey (Suc n))")
    case None
    with Suc show ?thesis
      unfolding processSections_Suc specSectionStart_def up
      by (simp add: sectionStep_def specSectionIncrease_def)
  next
    case (Some sd)
    then have "(sectionKey (Suc n), sd) \<in> set tline" by (rule map_of_SomeD)
    with assms have "specNumericLength sd"
      by (auto simp: specWellFormedTimeline_def list_all_iff startsWithSection_sectionKey)
    then have "sectionLength std sd = Num (specSectionIncrease std tline (Suc n))"
      using Some
      by (auto simp: specNumericLength_def sectionLength_def specSectionIncrease_def
            split: option.splits jsval.splits jsnum.splits)
    with Suc Some show ?thesis
      unfolding processSections_Suc specSectionStart_def up
      by (simp add: sectionStep_def processSection_cursor)
  qed
qed

lemma writes_grow_step:
  "set (snd (processSections std tline n)) \<subseteq> set (snd (processSections std tline (Suc n)))"
  by (auto simp: processSections_Suc sectionStep_def processSection_writes split: option.splits)

lemma writes_grow:
  "n \<le> k \<Longrightarrow> set (snd (processSections std tline n)) \<subseteq> set (snd (processSections std tline k))"
proof (induction k)
  case 0
  then show ?case by simp
next
  case (Suc k)
  show ?case
  proof (cases "n = Suc k")
    case True
    then show ?thesis by simp
  next
    case False
    with Suc.prems have "n \<le> k" by simp
    from Suc.IH [OF this] writes_grow_step [of std tline k] show ?thesis by blast
  qed
qed

lemma section_writes:
  assumes "1 \<le> i" and "map_of tline (sectionKey i) = Some sd"
  shows "(fst (processSections std tline i), sectionStartEntry (baseSectionData sd))
           \<in> set (snd (processSections std tline i))"
    and "(k, v) \<in> set sd \<Longrightarrow> parseFloat k = Num t \<Longrightarrow>
           (Num t, subMomentEntry (baseSectionData sd) v) \<in> set (snd (processSections std tline i))"
proof -
  from assms(1) obtain n where n: "i = Suc n" by (cases i) simp_all
  from assms(2) show "(fst (processSections std tline i), sectionStartEntry (baseSectionData sd))
           \<in> set (snd (processSections std tline i))"
    unfolding n processSections_Suc
    by (simp add: sectionStep_def processSection_writes processSection_cursor)
  assume kv: "(k, v) \<in> set sd" "parseFloat k = Num t"
  then have "(k, v) \<in> set (subMoments sd)"
    by (simp add: subMoments_def isNumericKey_def)
  then have "(parseFloat (fst (k, v)), subMomentEntry (baseSectionData sd) (snd (k, v)))
      \<in> (\<lambda>kv. (parseFloat (fst kv), subMomentEntry (baseSectionData sd) (snd kv)))
          ` set (subMoments sd)"
    by (rule imageI)
  with kv(2) assms(2) show "(Num t, subMomentEntry (baseSectionData sd) v)
      \<in> set (snd (processSections std tline i))"
    unfolding n processSections_Suc
    by (simp add: sectionStep_def processSection_writes)
qed

lemma map_of_spreadInto:
  "map_of (spreadInto target source) f =
     (case map_of (rev source) f of Some x \<Rightarrow> Some x | None \<Rightarrow> map_of target f)"
proof (induction source arbitrary: target)
  case Nil
  show ?case by (simp add: spreadInto_def)
next
  case (Cons kv source)
  have "spreadInto target (kv # source) = spreadInto (AList.update (fst kv) (snd kv) target) source"
    by (simp add: spreadInto_def)
  with Cons.IH [of "AList.update (fst kv) (snd kv) target"] show ?case
    by (auto simp: update_conv' map_add_def split: option.splits)
qed

lemma map_of_subMomentEntry:
  assumes "distinct (map fst (ownProps v))"
  shows "map_of (subMomentEntry base v) f =
     (if f = ''_isSubMoment'' then Some (JBool True)
      else (case map_of (ownProps v) f of Some x \<Rightarrow> Some x | None \<Rightarrow> map_of base f))"
proof -
  from assms have "distinct (map fst (rev (ownProps v)))"
    by (metis distinct_rev rev_map)
  with assms have "map_of (rev (ownProps v)) = map_of (ownProps v)"
    by (simp add: map_of_inject_set)
  then show ?thesis
    by (simp add: subMomentEntry_def update_conv' map_of_spreadInto)
qed

lemma map_of_sectionStartEntry:
  "map_of (sectionStartEntry base) f =
     (if f = ''_isSectionStart'' then Some (JBool True) else map_of base f)"
  by (simp add: sectionStartEntry_def update_conv')

lemma map_of_baseSectionData:
  "map_of (baseSectionData sd) f = (if isNumericKey f then None else map_of sd f)"
  unfolding baseSectionData_def
  by (induction sd) auto

lemma foldl_pushPart:
  "foldl pushPart acc es =
     acc @ concat (map (\<lambda>e. case map_of (snd e) ''part'' of
                               None \<Rightarrow> []
                             | Some p \<Rightarrow> if partIncluded (snd e) then [p] else []) es)"
  by (induction es arbitrary: acc) (simp_all add: pushPart_def split: option.splits)

lemma writes_suffix_step:
  "\<exists>new. snd (processSections std tline (Suc n)) = new @ snd (processSections std tline n)"
  by (auto simp: processSections_Suc sectionStep_def processSection_writes split: option.splits)

lemma writes_suffix:
  "n \<le> k \<Longrightarrow> \<exists>new. snd (processSections std tline k) = new @ snd (processSections std tline n)"
proof (induction k)
  case 0
  then show ?case by simp
next
  case (Suc k)
  show ?case
  proof (cases "n = Suc k")
    case True
    then show ?thesis by simp
  next
    case False
    with Suc.prems have "n \<le> k" by simp
    from Suc.IH [OF this] obtain new where
      new: "snd (processSections std tline k) = new @ snd (processSections std tline n)" by blast
    from writes_suffix_step [of std tline k] obtain new' where
      "snd (processSections std tline (Suc k)) = new' @ snd (processSections std tline k)" by blast
    with new have "snd (processSections std tline (Suc k))
        = (new' @ new) @ snd (processSections std tline n)" by simp
    then show ?thesis by blast
  qed
qed

lemma assignedAfter_split:
  assumes "i \<le> 20"
  shows "snd (processSections std tline 20)
           = assignedAfter std tline i @ snd (processSections std tline i)"
proof -
  from writes_suffix [OF assms, of std tline] obtain new where
    "snd (processSections std tline 20) = new @ snd (processSections std tline i)" by blast
  then show ?thesis by (simp add: assignedAfter_def)
qed

lemma section_split:
  assumes "1 \<le> i" and "map_of tline (sectionKey i) = Some sd"
  shows "snd (processSections std tline i) =
     (fst (processSections std tline i), sectionStartEntry (baseSectionData sd))
       # rev (map (\<lambda>kv. (parseFloat (fst kv), subMomentEntry (baseSectionData sd) (snd kv)))
                  (subMoments sd))
       @ snd (processSections std tline (i - 1))"
proof -
  from assms(1) obtain n where n: "i = Suc n" by (cases i) simp_all
  from assms(2) show ?thesis
    unfolding n processSections_Suc
    by (simp add: sectionStep_def processSection_writes processSection_cursor)
qed

lemma map_of_skip:
  "k \<notin> fst ` set xs \<Longrightarrow> map_of (xs @ ys) k = map_of ys k"
  by (induction xs) auto

lemma map_of_skip_eq:
  "ws = xs @ ys \<Longrightarrow> k \<notin> fst ` set xs \<Longrightarrow> map_of ws k = map_of ys k"
  using map_of_skip [of k xs ys] by blast

lemma map_of_filter_other:
  "map_of (filter (\<lambda>kv. fst kv \<noteq> k0) xs) k = (if k = k0 then None else map_of xs k)"
  by (induction xs) auto

lemma bindings_iff: "(k, v) \<in> set (bindings ws) \<longleftrightarrow> map_of ws k = Some v"
proof (induction ws arbitrary: k v rule: bindings.induct)
  case 1
  show ?case by simp
next
  case (2 kv rest)
  let ?others = "filter (\<lambda>kv'. fst kv' \<noteq> fst kv) rest"
  have ih: "(k, v) \<in> set (bindings ?others) \<longleftrightarrow> map_of ?others k = Some v"
    by (rule "2.IH")
  have m: "map_of (kv # rest) k = (if k = fst kv then Some (snd kv) else map_of rest k)"
    by (cases kv) simp
  show ?case
  proof (cases "k = fst kv")
    case True
    with ih have "(k, v) \<notin> set (bindings ?others)"
      by (simp add: map_of_filter_other)
    with True m show ?thesis by (cases kv) auto
  next
    case False
    then have "(k, v) \<noteq> kv" by auto
    with False ih m show ?thesis
      by (simp add: map_of_filter_other)
  qed
qed

lemma bindings_keys: "fst ` set (bindings ws) \<subseteq> fst ` set ws"
proof (induction ws rule: bindings.induct)
  case 1
  show ?case by simp
next
  case (2 kv rest)
  then show ?case by auto
qed

lemma bindings_distinct: "distinct (map fst (bindings ws))"
proof (induction ws rule: bindings.induct)
  case 1
  show ?case by simp
next
  case (2 kv rest)
  have "fst kv \<notin> fst ` set (filter (\<lambda>kv'. fst kv' \<noteq> fst kv) rest)" by auto
  with bindings_keys [of "filter (\<lambda>kv'. fst kv' \<noteq> fst kv) rest"]
  have "fst kv \<notin> fst ` set (bindings (filter (\<lambda>kv'. fst kv' \<noteq> fst kv) rest))" by blast
  with 2 show ?case by simp
qed

lemma explicit_keys_numeric:
  assumes "specWellFormedTimeline tline"
  shows "\<forall>e \<in> set (explicitEntries tline). fst e \<noteq> NaN"
  using assms
  by (auto simp: specWellFormedTimeline_def explicitEntries_def list_all_iff split: if_splits)

lemma writes_numeric:
  assumes "specWellFormedTimeline tline"
  shows "\<forall>e \<in> set (snd (processSections std tline n)). fst e \<noteq> NaN"
proof (induction n)
  case 0
  from explicit_keys_numeric [OF assms] show ?case
    by (simp add: processSections_0)
next
  case (Suc n)
  show ?case
  proof (cases "map_of tline (sectionKey (Suc n))")
    case None
    with Suc show ?thesis by (simp add: processSections_Suc sectionStep_def)
  next
    case (Some sd)
    have c: "fst (processSections std tline (Suc n)) \<noteq> NaN"
      by (simp add: cursor_is_spec [OF assms])
    have s: "\<forall>kv \<in> set (subMoments sd). parseFloat (fst kv) \<noteq> NaN"
      by (simp add: subMoments_def isNumericKey_def)
    have "1 \<le> Suc n" by simp
    from section_split [OF this Some, of std] Suc c s show ?thesis
      by auto
  qed
qed

lemma set_insertBy: "set (insertBy positive e xs) = insert e (set xs)"
  by (induction xs) auto

lemma set_sortByTime: "set (sortByTime es) = set es"
  by (induction es) (simp_all add: sortByTime_def set_insertBy)

lemma sorted_insertBy_time:
  assumes "sorted_wrt (\<lambda>a b. \<not> after (fst a) (fst b)) xs"
    and "\<forall>x \<in> set xs. fst x \<noteq> NaN" and "fst e \<noteq> NaN"
  shows "sorted_wrt (\<lambda>a b. \<not> after (fst a) (fst b))
           (insertBy (\<lambda>a b. after (fst a) (fst b)) e xs)"
  using assms
proof (induction xs)
  case Nil
  then show ?case by simp
next
  case (Cons x xs)
  obtain te where te: "fst e = Num te" using Cons.prems(3) by (cases "fst e") simp_all
  obtain tx where tx: "fst x = Num tx" using Cons.prems(2) by (cases "fst x") simp_all
  show ?case
  proof (cases "after (fst e) (fst x)")
    case True
    with te tx have "\<not> after (fst x) (fst e)" by simp
    with True Cons show ?thesis by (auto simp: set_insertBy)
  next
    case False
    have "\<not> after (fst e) (fst y)" if y: "y \<in> set xs" for y
    proof -
      obtain ty where ty: "fst y = Num ty" using Cons.prems(2) y by (cases "fst y") auto
      from Cons.prems(1) y have "\<not> after (fst x) (fst y)" by simp
      with False te tx ty show ?thesis by simp
    qed
    with False Cons.prems(1) show ?thesis by auto
  qed
qed

lemma sorted_sortByTime:
  "\<forall>x \<in> set es. fst x \<noteq> NaN \<Longrightarrow>
     sorted_wrt (\<lambda>a b. \<not> after (fst a) (fst b)) (sortByTime es)"
proof (induction es)
  case Nil
  show ?case by (simp add: sortByTime_def)
next
  case (Cons e es)
  then have "sorted_wrt (\<lambda>a b. \<not> after (fst a) (fst b)) (sortByTime es)" by simp
  moreover from Cons.prems have "\<forall>x \<in> set (sortByTime es). fst x \<noteq> NaN"
    by (simp add: set_sortByTime)
  moreover from Cons.prems have "fst e \<noteq> NaN" by simp
  ultimately have "sorted_wrt (\<lambda>a b. \<not> after (fst a) (fst b))
      (insertBy (\<lambda>a b. after (fst a) (fst b)) e (sortByTime es))"
    by (rule sorted_insertBy_time)
  then show ?case by (simp add: sortByTime_def)
qed

lemma subMoment_included_iff:
  "partIncluded (subMomentEntry base v) \<longleftrightarrow>
     truthyProp (map_of (subMomentEntry base v) ''part'')
     \<and> truthyProp (map_of (subMomentEntry base v) ''_isSectionStart'')"
  by (simp add: partIncluded_def subMomentEntry_def update_conv' truthyProp_def)

lemma resolved_of_sections:
  assumes "standardSectionLength tr = Some std" and "std \<noteq> 0"
  shows "processTimelineKeys tr = Resolved (snd (processSections std (timeline tr) 20))"
  using assms by (simp add: processTimelineKeys_def)

lemma accumulationTrack_facts:
  "standardSectionLength accumulationTrack = Some 30"
  "specWellFormedTimeline (timeline accumulationTrack)"
  "map_of (timeline accumulationTrack) (sectionKey 1) = Some [(''part'', JStr ''verse'')]"
  "map_of (timeline accumulationTrack) (sectionKey 2) = Some [(''part'', JStr ''chorus'')]"
  "specSectionStart 30 (timeline accumulationTrack) 1 = 40"
  "specSectionStart 30 (timeline accumulationTrack) 2 = 70"
  "processTimelineKeys accumulationTrack =
     Resolved [(Num 70, [(''part'', JStr ''chorus''), (''_isSectionStart'', JBool True)]),
               (Num 40, [(''part'', JStr ''verse''), (''_isSectionStart'', JBool True)]),
               (Num 10, [(''part'', JStr ''intro'')])]"
  by code_simp+

lemma subMomentTrack_facts:
  "standardSectionLength subMomentTrack = Some 30"
  "specWellFormedTimeline (timeline subMomentTrack)"
  "map_of (timeline subMomentTrack) (sectionKey 1)
     = Some [(''45'', JObj [(''part'', JStr ''fill''), (''pickup'', JStr ''David'')]),
             (''part'', JStr ''verse''), (''solo'', JStr ''Jerry'')]"
  "subMoments [(''45'', JObj [(''part'', JStr ''fill''), (''pickup'', JStr ''David'')]),
               (''part'', JStr ''verse''), (''solo'', JStr ''Jerry'')]
     = [] @ (''45'', JObj [(''part'', JStr ''fill''), (''pickup'', JStr ''David'')]) # []"
  "parseFloat ''45'' = Num 45"
  "assignedAfter 30 (timeline subMomentTrack) 1 = []"
  "fst (processSections 30 (timeline subMomentTrack) 1) = Num 30"
  "subMomentEntry
     (baseSectionData [(''45'', JObj [(''part'', JStr ''fill''), (''pickup'', JStr ''David'')]),
                       (''part'', JStr ''verse''), (''solo'', JStr ''Jerry'')])
     (JObj [(''part'', JStr ''fill''), (''pickup'', JStr ''David'')])
   = [(''part'', JStr ''fill''), (''solo'', JStr ''Jerry''),
      (''pickup'', JStr ''David''), (''_isSubMoment'', JBool True)]"
  "sectionStartEntry
     (baseSectionData [(''45'', JObj [(''part'', JStr ''fill''), (''pickup'', JStr ''David'')]),
                       (''part'', JStr ''verse''), (''solo'', JStr ''Jerry'')])
   = [(''part'', JStr ''verse''), (''solo'', JStr ''Jerry''), (''_isSectionStart'', JBool True)]"
  "extractSongParts subMomentTrack = [JStr ''intro'', JStr ''verse'']"
  by code_simp+

text \<open>
  Claim C1 (section start-time accumulation).  For a track with a non-zero
  \<open>standardSectionLength\<close> whose explicit keys are numbers and whose \<open>length\<close> fields are
  numbers: after the loop has gone through \<open>section1\<close> to \<open>section i\<close> its cursor is the start
  time as the specification words it; and for every section \<open>i\<close> up to 20 that exists the
  resolver assigns the section's base fields, marked \<open>_isSectionStart\<close>, at that time, where
  they are read unless a later assignment goes to the same time.  With the standard
  length 30, one explicit entry at 10 and two sections without a length of their own, the
  start times are 40 and 70.
\<close>

theorem section_start_accumulation:
  assumes "standardSectionLength tr = Some std" and "std \<noteq> 0"
    and "specWellFormedTimeline (timeline tr)"
  shows "(\<forall>n. fst (processSections std (timeline tr) n)
               = Num (specSectionStart std (timeline tr) n))
    \<and> (\<forall>i sd. 1 \<le> i \<and> i \<le> 20 \<and> map_of (timeline tr) (sectionKey i) = Some sd \<longrightarrow>
          (\<exists>ws. processTimelineKeys tr = Resolved ws
             \<and> (Num (specSectionStart std (timeline tr) i), sectionStartEntry (baseSectionData sd))
                  \<in> set ws
             \<and> map_of (sectionStartEntry (baseSectionData sd)) ''_isSectionStart''
                  = Some (JBool True)
             \<and> (distinct (map fst ws) \<longrightarrow>
                  map_of ws (Num (specSectionStart std (timeline tr) i))
                    = Some (sectionStartEntry (baseSectionData sd)))))"
proof (intro conjI allI impI)
  fix n
  from assms(3) show "fst (processSections std (timeline tr) n)
               = Num (specSectionStart std (timeline tr) n)"
    by (rule cursor_is_spec)
next
  fix i sd
  assume a: "1 \<le> i \<and> i \<le> 20 \<and> map_of (timeline tr) (sectionKey i) = Some sd"
  let ?ws = "snd (processSections std (timeline tr) 20)"
  let ?t = "Num (specSectionStart std (timeline tr) i)"
  let ?e = "sectionStartEntry (baseSectionData sd)"
  from a have "(fst (processSections std (timeline tr) i), ?e)
      \<in> set (snd (processSections std (timeline tr) i))"
    by (simp add: section_writes(1))
  with cursor_is_spec [OF assms(3), of std i]
  have "(?t, ?e) \<in> set (snd (processSections std (timeline tr) i))" by simp
  with a writes_grow [of i 20 std "timeline tr"] have mem: "(?t, ?e) \<in> set ?ws" by blast
  then have "distinct (map fst ?ws) \<longrightarrow> map_of ?ws ?t = Some ?e" by simp
  with mem resolved_of_sections [OF assms(1,2)]
  show "\<exists>ws. processTimelineKeys tr = Resolved ws
             \<and> (?t, ?e) \<in> set ws
             \<and> map_of ?e ''_isSectionStart'' = Some (JBool True)
             \<and> (distinct (map fst ws) \<longrightarrow> map_of ws ?t = Some ?e)"
    by (simp add: map_of_sectionStartEntry)
qed

theorem section_start_accumulation_witness:
  "standardSectionLength accumulationTrack = Some 30 \<and> (30 :: rat) \<noteq> 0
   \<and> specWellFormedTimeline (timeline accumulationTrack)
   \<and> fst (processSections 30 (timeline accumulationTrack) 1) = Num 40
   \<and> fst (processSections 30 (timeline accumulationTrack) 2) = Num 70
   \<and> processTimelineKeys accumulationTrack =
       Resolved [(Num 70, [(''part'', JStr ''chorus''), (''_isSectionStart'', JBool True)]),
                 (Num 40, [(''part'', JStr ''verse''), (''_isSectionStart'', JBool True)]),
                 (Num 10, [(''part'', JStr ''intro'')])]
   \<and> (Num 40, sectionStartEntry (baseSectionData [(''part'', JStr ''verse'')]))
        \<in> set [(Num 70, [(''part'', JStr ''chorus''), (''_isSectionStart'', JBool True)]),
                (Num 40, [(''part'', JStr ''verse''), (''_isSectionStart'', JBool True)]),
                (Num 10, [(''part'', JStr ''intro'')])]
   \<and> (Num 70, sectionStartEntry (baseSectionData [(''part'', JStr ''chorus'')]))
        \<in> set [(Num 70, [(''part'', JStr ''chorus''), (''_isSectionStart'', JBool True)]),
                (Num 40, [(''part'', JStr ''verse''), (''_isSectionStart'', JBool True)]),
                (Num 10, [(''part'', JStr ''intro'')])]"
proof -
  have nz: "(30 :: rat) \<noteq> 0" by simp
  note t = section_start_accumulation [OF accumulationTrack_facts(1) nz accumulationTrack_facts(2)]
  note t1 = t [THEN conjunct1, rule_format]
  note t2 = t [THEN conjunct2, rule_format]
  have c: "fst (processSections 30 (timeline accumulationTrack) 1) = Num 40"
    "fst (processSections 30 (timeline accumulationTrack) 2) = Num 70"
    using t1 [of 1] t1 [of 2] unfolding accumulationTrack_facts(5,6) by blast+
  have "(1 :: nat) \<le> 1 \<and> (1 :: nat) \<le> 20
      \<and> map_of (timeline accumulationTrack) (sectionKey 1) = Some [(''part'', JStr ''verse'')]"
    using accumulationTrack_facts(3) by simp
  from t2 [OF this]
  have m1: "(Num 40, sectionStartEntry (baseSectionData [(''part'', JStr ''verse'')]))
        \<in> set [(Num 70, [(''part'', JStr ''chorus''), (''_isSectionStart'', JBool True)]),
                (Num 40, [(''part'', JStr ''verse''), (''_isSectionStart'', JBool True)]),
                (Num 10, [(''part'', JStr ''intro'')])]"
    unfolding accumulationTrack_facts(5,7) by blast
  have "(1 :: nat) \<le> 2 \<and> (2 :: nat) \<le> 20
      \<and> map_of (timeline accumulationTrack) (sectionKey 2) = Some [(''part'', JStr ''chorus'')]"
    using accumulationTrack_facts(4) by simp
  from t2 [OF this]
  have m2: "(Num 70, sectionStartEntry (baseSectionData [(''part'', JStr ''chorus'')]))
        \<in> set [(Num 70, [(''part'', JStr ''chorus''), (''_isSectionStart'', JBool True)]),
                (Num 40, [(''part'', JStr ''verse''), (''_isSectionStart'', JBool True)]),
                (Num 10, [(''part'', JStr ''intro'')])]"
    unfolding accumulationTrack_facts(6,7) by blast
  from nz c m1 m2 accumulationTrack_facts(1,2,7) show ?thesis by blast
qed

text \<open>
  Claim C2 (sub-moment resolution and exclusion), as stated, has every numeric sub-key
  yield a resolved entry at its time.  The loop assigns the sub-moments of a section first
  and the section's start entry last, so a sub-moment at the start time of its own
  section (start 10 + 30 = 40, sub-key 40) is replaced: the resolved timeline holds the
  section-start entry at 40 and the merge nowhere.
\<close>

theorem sub_moment_at_section_start_counterexample:
  "standardSectionLength overTrack = Some 30
   \<and> map_of (timeline overTrack) (sectionKey 1)
       = Some [(''40'', JObj [(''flourish'', JStr ''Jerry'')]), (''part'', JStr ''verse'')]
   \<and> parseFloat ''40'' = Num 40
   \<and> subMomentEntry
        (baseSectionData [(''40'', JObj [(''flourish'', JStr ''Jerry'')]),
                          (''part'', JStr ''verse'')])
        (JObj [(''flourish'', JStr ''Jerry'')])
       = [(''part'', JStr ''verse''), (''flourish'', JStr ''Jerry''),
          (''_isSubMoment'', JBool True)]
   \<and> timelineEntries (processTimelineKeys overTrack)
       = [(Num 40, [(''part'', JStr ''verse''), (''_isSectionStart'', JBool True)]),
          (Num 10, [(''part'', JStr ''intro'')])]
   \<and> (Num 40, [(''part'', JStr ''verse''), (''flourish'', JStr ''Jerry''),
                (''_isSubMoment'', JBool True)])
        \<notin> set (timelineEntries (processTimelineKeys overTrack))"
  by code_simp

text \<open>
  Claim C2, amended.  For a track in the track format with a non-zero
  \<open>standardSectionLength\<close> and a section \<open>i\<close> up to 20 that exists: the resolved timeline is
  the assignments of the later sections in front of those made up to \<open>section i\<close>.  For
  every property of the section whose name \<open>parseFloat\<close> reads as the number \<open>t\<close>, the
  resolver assigns at \<open>t\<close> the merge of the section's non-numeric fields with the
  sub-moment's fields, where the sub-moment's fields win, plus \<open>_isSubMoment: true\<close>; that
  merge is the resolved entry at \<open>t\<close> when no later sub-key of the section reads as \<open>t\<close>,
  \<open>t\<close> is not the section's start time, and no later section assigns to \<open>t\<close>.  The
  non-numeric fields, marked \<open>_isSectionStart\<close>, are assigned at the section's start time,
  and are the resolved entry there when no later section assigns to it.  The resolved
  timeline holds at every time the value assigned there last; its times are numbers, each
  once, so their ascending order is determined.  The song parts are the \<open>part\<close> values,
  in ascending order of time, of the resolved entries that have a truthy part and are a
  section start or not a sub-moment; a sub-moment entry is among them exactly when its
  part is truthy and it is also marked a section start.
\<close>

theorem sub_moment_resolution:
  assumes "standardSectionLength tr = Some std" and "std \<noteq> 0"
    and "specWellFormedTimeline (timeline tr)"
    and "1 \<le> i" and "i \<le> 20" and "map_of (timeline tr) (sectionKey i) = Some sd"
  shows "\<exists>ws. processTimelineKeys tr = Resolved ws
    \<and> ws = assignedAfter std (timeline tr) i @ snd (processSections std (timeline tr) i)
    \<and> (\<forall>k v t. (k, v) \<in> set sd \<and> parseFloat k = Num t \<longrightarrow>
          (Num t, subMomentEntry (baseSectionData sd) v) \<in> set ws
          \<and> (distinct (map fst (ownProps v)) \<longrightarrow>
                (\<forall>f. map_of (subMomentEntry (baseSectionData sd) v) f
                       = (if f = ''_isSubMoment'' then Some (JBool True)
                          else (case map_of (ownProps v) f of
                                  Some x \<Rightarrow> Some x
                                | None \<Rightarrow> map_of (baseSectionData sd) f))))
          \<and> (partIncluded (subMomentEntry (baseSectionData sd) v) \<longleftrightarrow>
                truthyProp (map_of (subMomentEntry (baseSectionData sd) v) ''part'')
                \<and> truthyProp (map_of (subMomentEntry (baseSectionData sd) v)
                                ''_isSectionStart'')))
    \<and> (\<forall>k v t before rest.
          subMoments sd = before @ (k, v) # rest \<and> parseFloat k = Num t
          \<and> Num t \<notin> fst ` set (assignedAfter std (timeline tr) i)
          \<and> Num t \<noteq> fst (processSections std (timeline tr) i)
          \<and> Num t \<notin> (\<lambda>kv. parseFloat (fst kv)) ` set rest \<longrightarrow>
          map_of ws (Num t) = Some (subMomentEntry (baseSectionData sd) v)
          \<and> (Num t, subMomentEntry (baseSectionData sd) v)
               \<in> set (timelineEntries (Resolved ws)))
    \<and> fst (processSections std (timeline tr) i) = Num (specSectionStart std (timeline tr) i)
    \<and> (fst (processSections std (timeline tr) i), sectionStartEntry (baseSectionData sd))
         \<in> set ws
    \<and> (fst (processSections std (timeline tr) i)
          \<notin> fst ` set (assignedAfter std (timeline tr) i) \<longrightarrow>
          map_of ws (fst (processSections std (timeline tr) i))
            = Some (sectionStartEntry (baseSectionData sd))
          \<and> (fst (processSections std (timeline tr) i),
              sectionStartEntry (baseSectionData sd))
               \<in> set (timelineEntries (Resolved ws)))
    \<and> (\<forall>f. map_of (sectionStartEntry (baseSectionData sd)) f
             = (if f = ''_isSectionStart'' then Some (JBool True)
                else map_of (baseSectionData sd) f))
    \<and> (\<forall>f. map_of (baseSectionData sd) f = (if isNumericKey f then None else map_of sd f))
    \<and> (\<forall>t e. (t, e) \<in> set (timelineEntries (Resolved ws)) \<longleftrightarrow> map_of ws t = Some e)
    \<and> (\<forall>e \<in> set ws. fst e \<noteq> NaN)
    \<and> distinct (map fst (timelineEntries (Resolved ws)))
    \<and> sorted_wrt (\<lambda>a b. \<not> after (fst a) (fst b))
         (sortByTime (timelineEntries (Resolved ws)))
    \<and> set (sortByTime (timelineEntries (Resolved ws))) = set (timelineEntries (Resolved ws))
    \<and> extractSongParts tr
        = concat (map (\<lambda>e. case map_of (snd e) ''part'' of
                              None \<Rightarrow> []
                            | Some p \<Rightarrow> if partIncluded (snd e) then [p] else [])
                      (sortByTime (timelineEntries (Resolved ws))))"
proof -
  let ?tl = "timeline tr"
  let ?ws = "snd (processSections std ?tl 20)"
  let ?later = "assignedAfter std ?tl i"
  let ?b = "baseSectionData sd"
  let ?s = "fst (processSections std ?tl i)"
  let ?g = "\<lambda>kv. (parseFloat (fst kv), subMomentEntry ?b (snd kv))"
  have f1: "processTimelineKeys tr = Resolved ?ws"
    using assms(1,2) by (rule resolved_of_sections)
  have f2: "?ws = ?later @ snd (processSections std ?tl i)"
    using assms(5) by (rule assignedAfter_split)
  have sec: "snd (processSections std ?tl i)
      = (?s, sectionStartEntry ?b) # rev (map ?g (subMoments sd))
          @ snd (processSections std ?tl (i - 1))"
    using assms(4,6) by (rule section_split)
  have f3: "\<forall>k v t. (k, v) \<in> set sd \<and> parseFloat k = Num t \<longrightarrow>
          (Num t, subMomentEntry ?b v) \<in> set ?ws
          \<and> (distinct (map fst (ownProps v)) \<longrightarrow>
                (\<forall>f. map_of (subMomentEntry ?b v) f
                       = (if f = ''_isSubMoment'' then Some (JBool True)
                          else (case map_of (ownProps v) f of
                                  Some x \<Rightarrow> Some x
                                | None \<Rightarrow> map_of ?b f))))
          \<and> (partIncluded (subMomentEntry ?b v) \<longleftrightarrow>
                truthyProp (map_of (subMomentEntry ?b v) ''part'')
                \<and> truthyProp (map_of (subMomentEntry ?b v) ''_isSectionStart''))"
  proof (intro allI impI)
    fix k v t
    assume kv: "(k, v) \<in> set sd \<and> parseFloat k = Num t"
    with section_writes(2) [OF assms(4,6), of k v t std]
    have "(Num t, subMomentEntry ?b v) \<in> set (snd (processSections std ?tl i))" by simp
    with f2 have "(Num t, subMomentEntry ?b v) \<in> set ?ws" by simp
    then show "(Num t, subMomentEntry ?b v) \<in> set ?ws
          \<and> (distinct (map fst (ownProps v)) \<longrightarrow>
                (\<forall>f. map_of (subMomentEntry ?b v) f
                       = (if f = ''_isSubMoment'' then Some (JBool True)
                          else (case map_of (ownProps v) f of
                                  Some x \<Rightarrow> Some x
                                | None \<Rightarrow> map_of ?b f))))
          \<and> (partIncluded (subMomentEntry ?b v) \<longleftrightarrow>
                truthyProp (map_of (subMomentEntry ?b v) ''part'')
                \<and> truthyProp (map_of (subMomentEntry ?b v) ''_isSectionStart''))"
      using subMoment_included_iff [of ?b v] by (simp add: map_of_subMomentEntry)
  qed
  have f9: "\<forall>t e. (t, e) \<in> set (timelineEntries (Resolved ?ws)) \<longleftrightarrow> map_of ?ws t = Some e"
    by (simp add: timelineEntries_def bindings_iff)
  have f4: "\<forall>k v t before rest.
          subMoments sd = before @ (k, v) # rest \<and> parseFloat k = Num t
          \<and> Num t \<notin> fst ` set ?later
          \<and> Num t \<noteq> ?s
          \<and> Num t \<notin> (\<lambda>kv. parseFloat (fst kv)) ` set rest \<longrightarrow>
          map_of ?ws (Num t) = Some (subMomentEntry ?b v)
          \<and> (Num t, subMomentEntry ?b v) \<in> set (timelineEntries (Resolved ?ws))"
  proof (intro allI impI)
    fix k v t before rest
    assume a: "subMoments sd = before @ (k, v) # rest \<and> parseFloat k = Num t
          \<and> Num t \<notin> fst ` set ?later
          \<and> Num t \<noteq> ?s
          \<and> Num t \<notin> (\<lambda>kv. parseFloat (fst kv)) ` set rest"
    then have r: "rev (map ?g (subMoments sd))
        = rev (map ?g rest) @ (Num t, subMomentEntry ?b v) # rev (map ?g before)"
      by simp
    from a have n: "Num t \<notin> fst ` set (rev (map ?g rest))" by force
    from a have l: "Num t \<notin> fst ` set ?later" by simp
    have "map_of ?ws (Num t) = map_of (snd (processSections std ?tl i)) (Num t)"
      using f2 l by (rule map_of_skip_eq)
    also have "\<dots> = map_of (rev (map ?g (subMoments sd))
                              @ snd (processSections std ?tl (i - 1))) (Num t)"
    proof (rule map_of_skip_eq)
      show "snd (processSections std ?tl i)
          = [(?s, sectionStartEntry ?b)]
            @ (rev (map ?g (subMoments sd)) @ snd (processSections std ?tl (i - 1)))"
        by (simp add: sec)
      from a show "Num t \<notin> fst ` set [(?s, sectionStartEntry ?b)]" by simp
    qed
    also have "\<dots> = map_of ((Num t, subMomentEntry ?b v) # rev (map ?g before)
                              @ snd (processSections std ?tl (i - 1))) (Num t)"
    proof (rule map_of_skip_eq)
      show "rev (map ?g (subMoments sd)) @ snd (processSections std ?tl (i - 1))
          = rev (map ?g rest)
            @ ((Num t, subMomentEntry ?b v) # rev (map ?g before)
               @ snd (processSections std ?tl (i - 1)))"
        by (simp add: r)
      from n show "Num t \<notin> fst ` set (rev (map ?g rest))" .
    qed
    also have "\<dots> = Some (subMomentEntry ?b v)" by simp
    finally have "map_of ?ws (Num t) = Some (subMomentEntry ?b v)" .
    with f9 show "map_of ?ws (Num t) = Some (subMomentEntry ?b v)
          \<and> (Num t, subMomentEntry ?b v) \<in> set (timelineEntries (Resolved ?ws))"
      by simp
  qed
  have f5: "?s = Num (specSectionStart std ?tl i)"
    using assms(3) by (rule cursor_is_spec)
  have f6: "(?s, sectionStartEntry ?b) \<in> set ?ws"
    by (subst f2) (simp add: sec)
  have f7: "?s \<notin> fst ` set ?later \<longrightarrow>
          map_of ?ws ?s = Some (sectionStartEntry ?b)
          \<and> (?s, sectionStartEntry ?b) \<in> set (timelineEntries (Resolved ?ws))"
  proof
    assume "?s \<notin> fst ` set ?later"
    with f2 have "map_of ?ws ?s = map_of (snd (processSections std ?tl i)) ?s"
      by (rule map_of_skip_eq)
    also have "\<dots> = Some (sectionStartEntry ?b)" by (simp add: sec)
    finally have "map_of ?ws ?s = Some (sectionStartEntry ?b)" .
    with f9 show "map_of ?ws ?s = Some (sectionStartEntry ?b)
          \<and> (?s, sectionStartEntry ?b) \<in> set (timelineEntries (Resolved ?ws))"
      by simp
  qed
  have f8a: "\<forall>f. map_of (sectionStartEntry ?b) f
             = (if f = ''_isSectionStart'' then Some (JBool True) else map_of ?b f)"
    by (simp add: map_of_sectionStartEntry)
  have f8b: "\<forall>f. map_of ?b f = (if isNumericKey f then None else map_of sd f)"
    by (simp add: map_of_baseSectionData)
  have f10: "\<forall>e \<in> set ?ws. fst e \<noteq> NaN"
    using assms(3) by (rule writes_numeric)
  have f11: "distinct (map fst (timelineEntries (Resolved ?ws)))"
    by (simp add: timelineEntries_def bindings_distinct)
  have "\<forall>x \<in> set (timelineEntries (Resolved ?ws)). fst x \<noteq> NaN"
  proof
    fix x assume "x \<in> set (timelineEntries (Resolved ?ws))"
    then have "fst x \<in> fst ` set (bindings ?ws)" by (simp add: timelineEntries_def)
    with bindings_keys [of ?ws] have "fst x \<in> fst ` set ?ws" by blast
    with f10 show "fst x \<noteq> NaN" by force
  qed
  then have f12: "sorted_wrt (\<lambda>a b. \<not> after (fst a) (fst b))
         (sortByTime (timelineEntries (Resolved ?ws)))"
    by (rule sorted_sortByTime)
  have f13: "set (sortByTime (timelineEntries (Resolved ?ws)))
      = set (timelineEntries (Resolved ?ws))"
    by (rule set_sortByTime)
  have f14: "extractSongParts tr
        = concat (map (\<lambda>e. case map_of (snd e) ''part'' of
                              None \<Rightarrow> []
                            | Some p \<Rightarrow> if partIncluded (snd e) then [p] else [])
                      (sortByTime (timelineEntries (Resolved ?ws))))"
    by (simp add: extractSongParts_def f1 foldl_pushPart)
  show ?thesis
    by (rule exI [of _ ?ws])
       (intro conjI f1 f2 f3 f4 f5 f6 f7 f8a f8b f9 f10 f11 f12 f13 f14)
qed

theorem sub_moment_resolution_witness:
  "standardSectionLength subMomentTrack = Some 30 \<and> (30 :: rat) \<noteq> 0
   \<and> specWellFormedTimeline (timeline subMomentTrack)
   \<and> map_of (timeline subMomentTrack) (sectionKey 1)
       = Some [(''45'', JObj [(''part'', JStr ''fill''), (''pickup'', JStr ''David'')]),
               (''part'', JStr ''verse''), (''solo'', JStr ''Jerry'')]
   \<and> parseFloat ''45'' = Num 45
   \<and> assignedAfter 30 (timeline subMomentTrack) 1 = []
   \<and> fst (processSections 30 (timeline subMomentTrack) 1) = Num 30
   \<and> (Num 45, [(''part'', JStr ''fill''), (''solo'', JStr ''Jerry''),
                (''pickup'', JStr ''David''), (''_isSubMoment'', JBool True)])
        \<in> set (timelineEntries (processTimelineKeys subMomentTrack))
   \<and> (Num 30, [(''part'', JStr ''verse''), (''solo'', JStr ''Jerry''),
                (''_isSectionStart'', JBool True)])
        \<in> set (timelineEntries (processTimelineKeys subMomentTrack))
   \<and> extractSongParts subMomentTrack = [JStr ''intro'', JStr ''verse'']"
proof -
  let ?sd = "[(''45'', JObj [(''part'', JStr ''fill''), (''pickup'', JStr ''David'')]),
              (''part'', JStr ''verse''), (''solo'', JStr ''Jerry'')]"
  let ?v = "JObj [(''part'', JStr ''fill''), (''pickup'', JStr ''David'')]"
  have nz: "(30 :: rat) \<noteq> 0" and i: "(1 :: nat) \<le> 1" "(1 :: nat) \<le> 20" by simp_all
  from sub_moment_resolution [OF subMomentTrack_facts(1) nz subMomentTrack_facts(2) i
      subMomentTrack_facts(3)]
  obtain ws where ws: "processTimelineKeys subMomentTrack = Resolved ws"
    and sub: "\<forall>k v t before rest.
          subMoments ?sd = before @ (k, v) # rest \<and> parseFloat k = Num t
          \<and> Num t \<notin> fst ` set (assignedAfter 30 (timeline subMomentTrack) 1)
          \<and> Num t \<noteq> fst (processSections 30 (timeline subMomentTrack) 1)
          \<and> Num t \<notin> (\<lambda>kv. parseFloat (fst kv)) ` set rest \<longrightarrow>
          map_of ws (Num t) = Some (subMomentEntry (baseSectionData ?sd) v)
          \<and> (Num t, subMomentEntry (baseSectionData ?sd) v)
               \<in> set (timelineEntries (Resolved ws))"
    and start: "fst (processSections 30 (timeline subMomentTrack) 1)
          \<notin> fst ` set (assignedAfter 30 (timeline subMomentTrack) 1) \<longrightarrow>
          map_of ws (fst (processSections 30 (timeline subMomentTrack) 1))
            = Some (sectionStartEntry (baseSectionData ?sd))
          \<and> (fst (processSections 30 (timeline subMomentTrack) 1),
              sectionStartEntry (baseSectionData ?sd))
               \<in> set (timelineEntries (Resolved ws))"
    by blast
  have "subMoments ?sd = [] @ (''45'', ?v) # [] \<and> parseFloat ''45'' = Num 45
          \<and> Num 45 \<notin> fst ` set (assignedAfter 30 (timeline subMomentTrack) 1)
          \<and> Num 45 \<noteq> fst (processSections 30 (timeline subMomentTrack) 1)
          \<and> Num 45 \<notin> (\<lambda>kv. parseFloat (fst kv)) ` set []"
    unfolding subMomentTrack_facts(6,7) using subMomentTrack_facts(4,5) by simp
  from sub [rule_format, OF this]
  have m: "(Num 45, [(''part'', JStr ''fill''), (''solo'', JStr ''Jerry''),
                (''pickup'', JStr ''David''), (''_isSubMoment'', JBool True)])
        \<in> set (timelineEntries (processTimelineKeys subMomentTrack))"
    unfolding subMomentTrack_facts(8) ws by blast
  have "fst (processSections 30 (timeline subMomentTrack) 1)
          \<notin> fst ` set (assignedAfter 30 (timeline subMomentTrack) 1)"
    unfolding subMomentTrack_facts(6) by simp
  from start [rule_format, OF this]
  have s: "(Num 30, [(''part'', JStr ''verse''), (''solo'', JStr ''Jerry''),
                (''_isSectionStart'', JBool True)])
        \<in> set (timelineEntries (processTimelineKeys subMomentTrack))"
    unfolding subMomentTrack_facts(7,9) ws by blast
  from nz m s subMomentTrack_facts(1,2,3,5,6,7,10) show ?thesis by blast
qed

subsection \<open>Moments\<close>




lemma triggeredAt_length: "length (triggeredAt ms ticks) = length ticks"
  by (induction ticks arbitrary: ms) simp_all









lemma foldl_append_concat:
  "foldl (\<lambda>acc x. acc @ f x) a xs = a @ concat (map f xs)"
  by (induction xs arbitrary: a) simp_all

text \<open>
  What \<open>extractMomentTimes\<close> does collect: the times above 0 that \<open>Number\<close> reads from the
  keys of the raw timeline whose arrangement has a band or musician change or the legacy
  \<open>band-in\<close> detail, in ascending order.
\<close>

lemma extractMomentTimes_raw_timeline:
  "set (extractMomentTimes tr) =
     {t. 0 < t \<and> (\<exists>kv \<in> set (timeline tr). Number (fst kv) = Num t \<and>
                     (musiciansMoment (snd kv) \<or> legacyBandIn (snd kv)))}"
  "sorted (extractMomentTimes tr)"
proof -
  have "t \<in> set (momentPushes kv) \<longleftrightarrow>
          0 < t \<and> Number (fst kv) = Num t \<and> (musiciansMoment (snd kv) \<or> legacyBandIn (snd kv))"
    for t kv
    by (auto simp: momentPushes_def split: jsnum.splits)
  then show "set (extractMomentTimes tr) =
     {t. 0 < t \<and> (\<exists>kv \<in> set (timeline tr). Number (fst kv) = Num t \<and>
                     (musiciansMoment (snd kv) \<or> legacyBandIn (snd kv)))}"
    by (auto simp: extractMomentTimes_def foldl_append_concat)
  show "sorted (extractMomentTimes tr)"
    by (simp add: extractMomentTimes_def)
qed

text \<open>
  Claim C6 (moment collection completeness) at a track that places a band entrance in a
  section: the resolved timeline has the entry at the section start, 30 seconds, with
  \<open>musicians.band = "in"\<close>, but \<open>extractMomentTimes\<close>, which reads the raw timeline, where
  the key \<open>section1\<close> is not a number, collects no moment.
\<close>

theorem extractMomentTimes_misses_section:
  "processTimelineKeys sectionTrack =
     Resolved [(Num 30, [(''part'', JStr ''verse''),
                         (''musicians'', JObj [(''band'', JStr ''in'')]),
                         (''_isSectionStart'', JBool True)]),
               (Num 0, [(''part'', JStr ''intro'')])]
   \<and> musiciansMoment [(''part'', JStr ''verse''),
                       (''musicians'', JObj [(''band'', JStr ''in'')]),
                       (''_isSectionStart'', JBool True)]
   \<and> extractMomentTimes sectionTrack = []"
  by code_simp

subsection \<open>Weights\<close>

lemma calculatePickupWeight_bounds:
  "2 \<le> calculatePickupWeight tr name t \<and> calculatePickupWeight tr name t \<le> 5"
proof (cases "find (isPickupStart name t)
                (sortByTimeDescending (timelineEntries (processTimelineKeys tr)))")
  case None
  then show ?thesis by (simp add: calculatePickupWeight_def)
next
  case (Some e)
  then have "isPickupStart name t e" by (auto simp: find_Some_iff)
  then obtain u where u: "fst e = Num u" "u \<le> t"
    by (auto simp: isPickupStart_def split: jsnum.splits)
  have "0 \<le> min ((t - u) / 5) 1" "min ((t - u) / 5) 1 \<le> 1"
    using u(2) by simp_all
  then have "2 \<le> 5 - min ((t - u) / 5) 1 * 3 \<and> 5 - min ((t - u) / 5) 1 * 3 \<le> 5"
    by linarith
  with Some u(1) show ?thesis by (simp add: calculatePickupWeight_def Let_def)
qed

lemma sceneWeight_bounds:
  "1 \<le> sceneWeight tr name t scene \<and> sceneWeight tr name t scene \<le> 8"
  using calculatePickupWeight_bounds [of tr name t]
  by (auto simp: sceneWeight_def)

lemma initializeMusicianWeights_base:
  assumes "m \<in> fst ` set (ensemble tr)"
  shows "\<exists>b. initializeMusicianWeights tr m = Some b \<and> 100 \<le> b"
proof -
  define step :: "(string \<Rightarrow> rat option) \<times> rat \<Rightarrow> string \<Rightarrow> (string \<Rightarrow> rat option) \<times> rat"
    where "step = (\<lambda>st n. ((fst st)(n \<mapsto> snd st), snd st + 10))"
  have inv: "\<exists>b. fst (foldl step (w, c) names) m = Some b \<and> 100 \<le> b"
    if "100 \<le> c" and "m \<in> set names \<or> (\<exists>b. w m = Some b \<and> 100 \<le> b)" for w c names
    using that
  proof (induction names arbitrary: w c)
    case Nil
    then show ?case by simp
  next
    case (Cons n names)
    have s: "step (w, c) n = (w(n \<mapsto> c), c + 10)" by (simp add: step_def)
    have 1: "100 \<le> c + 10" using Cons.prems(1) by simp
    have 2: "m \<in> set names \<or> (\<exists>b. (w(n \<mapsto> c)) m = Some b \<and> 100 \<le> b)"
      using Cons.prems by auto
    from 1 2 have "\<exists>b. fst (foldl step (w(n \<mapsto> c), c + 10) names) m = Some b \<and> 100 \<le> b"
      by (rule Cons.IH)
    then show ?case unfolding foldl_Cons s .
  qed
  from assms have "m \<in> set (map fst (ensemble tr))" by simp
  with inv [of 100 "map fst (ensemble tr)" Map.empty]
  show ?thesis
    unfolding initializeMusicianWeights_def step_def by simp
qed

text \<open>
  For the \<open>solo\<close> field the ordering holds: the musician named by \<open>arrangement.solo\<close>
  weighs at most 8, a non-featured musician of the ensemble at least 10.
\<close>

lemma solo_weight_below_nonfeatured:
  assumes "fieldOf arrangement ''solo'' = Some (JStr s)"
    and "m \<in> fst ` set (ensemble tr)"
    and "\<not> truthyProp (musicianSceneOf arrangement m)"
    and "m \<noteq> s"
    and "fieldOf arrangement ''pickup'' \<noteq> Some (JStr m)"
  shows "\<exists>ws wm.
           calculateDynamicWeight tr (initializeMusicianWeights tr) recent s t arrangement = Num ws
           \<and> calculateDynamicWeight tr (initializeMusicianWeights tr) recent m t arrangement = Num wm
           \<and> ws < wm"
proof -
  obtain ws where ws:
    "calculateDynamicWeight tr (initializeMusicianWeights tr) recent s t arrangement = Num ws"
    "ws \<le> 8"
  proof (cases "truthyProp (musicianSceneOf arrangement s)")
    case True
    then obtain scene where "musicianSceneOf arrangement s = Some scene"
      by (auto simp: truthyProp_def split: option.splits)
    with True sceneWeight_bounds [of tr s t scene] that show ?thesis
      by (simp add: calculateDynamicWeight_def)
  next
    case False
    with assms(1) that show ?thesis
      by (simp add: calculateDynamicWeight_def)
  qed
  from initializeMusicianWeights_base [OF assms(2)]
  obtain b where b: "initializeMusicianWeights tr m = Some b" "100 \<le> b" by blast
  obtain wm where wm:
    "calculateDynamicWeight tr (initializeMusicianWeights tr) recent m t arrangement = Num wm"
    "10 \<le> wm"
  proof (cases "indexOf recent m")
    case None
    have "(0 :: rat) \<le> of_nat (length recent) * 5" by simp
    with b(2) have "10 \<le> b + of_nat (length recent) * 5" by linarith
    with None assms b(1) that show ?thesis
      by (simp add: calculateDynamicWeight_def)
  next
    case (Some i)
    have "(10 :: rat) \<le> 10 + of_nat i" by simp
    with Some assms that show ?thesis
      by (simp add: calculateDynamicWeight_def)
  qed
  from ws wm show ?thesis by force
qed

text \<open>
  Claim C9 (weight ordering) at an arrangement that names its soloist in the \<open>soloist\<close>
  field: \<open>updateEnsembleDisplay\<close> takes Jerry as the current solo, but
  \<open>calculateDynamicWeight\<close> reads \<open>arrangement.solo\<close> only, so Jerry keeps the base weight 110
  while the non-featured David has 100.
\<close>

theorem soloist_weight_not_first:
  "currentSolo (Some [(''soloist'', JStr ''Jerry'')]) = Some (JStr ''Jerry'')
   \<and> calculateDynamicWeight legacyTrack (initializeMusicianWeights legacyTrack) [] ''Jerry'' 0
        (Some [(''soloist'', JStr ''Jerry'')]) = Num 110
   \<and> calculateDynamicWeight legacyTrack (initializeMusicianWeights legacyTrack) [] ''David'' 0
        (Some [(''soloist'', JStr ''Jerry'')]) = Num 100"
  by code_simp

end
